theory Spec2Isabelle
  imports Main "HOL-Library.Word"
begin

section \<open>Strings, bytes and exceptions\<close>

text \<open>
  A Python \<open>str\<close> is a sequence of Unicode code points, and \<open>len\<close>, slicing and the
  \<open>re\<close> module count code points; a \<open>bytes\<close> object is a sequence of octets.
  Literals of the source are written as Isabelle strings and embedded by \<open>ustr\<close>.
\<close>

type_synonym pystr = "nat list"
type_synonym byte = "8 word"

definition ustr :: "string \<Rightarrow> pystr" where
  "ustr s = map of_char s"

text \<open>
  The exception classes that \<open>decode_hashlink\<close> distinguishes in its handlers.
  \<open>BinasciiError\<close> is \<open>base64.binascii.Error\<close>; \<open>ValueError\<close> is the plain
  \<open>ValueError\<close> that \<open>base64.b64decode\<close> raises for a non-ASCII \<open>str\<close> (it is a
  superclass of \<open>binascii.Error\<close>, so a handler for the latter does not catch it);
  \<open>OtherException n\<close> stands for any further subclass of \<open>Exception\<close>
  (\<open>MemoryError\<close>, \<open>requests.exceptions.ReadTimeout\<close>, \dots).
\<close>

datatype exn =
    BinasciiError
  | ValueError
  | UnicodeDecodeError
  | LZMAError
  | ExecjsError
  | ConnectionError
  | IndexError
  | OtherException nat

section \<open>The regular expressions of the source\<close>

text \<open>
  The fragment of Python's backtracking \<open>re\<close> engine that the patterns of the source
  use: literals, greedy and lazy repetition of a one-character class, a greedy option,
  ordered alternation, concatenation, capture groups and the end anchor. The matcher is
  written in continuation-passing style, so that a repetition is retried with fewer
  (greedy) or more (lazy) characters when the rest of the pattern fails, as the engine
  does.
\<close>

datatype cset =
    Except nat      \<comment> \<open>\<open>[^c]\<close>\<close>
  | Dot             \<comment> \<open>\<open>.\<close> without \<open>re.DOTALL\<close>: anything but a newline\<close>
  | DotAll          \<comment> \<open>\<open>.\<close> under \<open>re.DOTALL\<close>\<close>
  | Base64Chars     \<comment> \<open>\<open>[A-Za-z0-9+/=]\<close>\<close>

fun cset_ok :: "cset \<Rightarrow> nat \<Rightarrow> bool" where
  "cset_ok (Except c) x = (x \<noteq> c)"
| "cset_ok Dot x = (x \<noteq> 10)"
| "cset_ok DotAll x = True"
| "cset_ok Base64Chars x =
     ((65 \<le> x \<and> x \<le> 90) \<or> (97 \<le> x \<and> x \<le> 122) \<or> (48 \<le> x \<and> x \<le> 57)
      \<or> x = 43 \<or> x = 47 \<or> x = 61)"

datatype rx =
    Lit pystr       \<comment> \<open>a literal string\<close>
  | LitCI pystr     \<comment> \<open>a literal of ASCII letters and punctuation under \<open>re.IGNORECASE\<close>\<close>
  | Star cset       \<comment> \<open>\<open>c*\<close>\<close>
  | Plus cset       \<comment> \<open>\<open>c+\<close>\<close>
  | LazyStar cset   \<comment> \<open>\<open>c*?\<close>\<close>
  | AtLeast nat cset  \<comment> \<open>\<open>c{n,}\<close>\<close>
  | Eos             \<comment> \<open>\<open>$\<close>: the end, or before a newline that ends the string\<close>
  | Opt rx          \<comment> \<open>\<open>r?\<close>\<close>
  | Alt rx rx       \<comment> \<open>\<open>r|s\<close>\<close>
  | Cat rx rx
  | Grp rx          \<comment> \<open>a capture group\<close>

fun strip_prefix :: "pystr \<Rightarrow> pystr \<Rightarrow> pystr option" where
  "strip_prefix [] s = Some s"
| "strip_prefix (p # ps) [] = None"
| "strip_prefix (p # ps) (c # cs) = (if p = c then strip_prefix ps cs else None)"

definition ascii_lower :: "nat \<Rightarrow> nat" where
  "ascii_lower c = (if 65 \<le> c \<and> c \<le> 90 then c + 32 else c)"

fun strip_prefix_ci :: "pystr \<Rightarrow> pystr \<Rightarrow> pystr option" where
  "strip_prefix_ci [] s = Some s"
| "strip_prefix_ci (p # ps) [] = None"
| "strip_prefix_ci (p # ps) (c # cs) =
     (if ascii_lower p = ascii_lower c then strip_prefix_ci ps cs else None)"

fun star_greedy :: "(nat \<Rightarrow> bool) \<Rightarrow> (pystr \<Rightarrow> 'a option) \<Rightarrow> pystr \<Rightarrow> 'a option" where
  "star_greedy P k [] = k []"
| "star_greedy P k (c # cs) =
     (if P c then (case star_greedy P k cs of Some r \<Rightarrow> Some r | None \<Rightarrow> k (c # cs))
      else k (c # cs))"

fun star_lazy :: "(nat \<Rightarrow> bool) \<Rightarrow> (pystr \<Rightarrow> 'a option) \<Rightarrow> pystr \<Rightarrow> 'a option" where
  "star_lazy P k [] = k []"
| "star_lazy P k (c # cs) =
     (case k (c # cs) of Some r \<Rightarrow> Some r
      | None \<Rightarrow> if P c then star_lazy P k cs else None)"

text \<open>
  \<open>rxm r k g s\<close> matches \<open>r\<close> at the start of \<open>s\<close> and hands the groups captured so
  far and the unread rest to the continuation \<open>k\<close>; \<open>None\<close> is "no match".
\<close>

primrec rxm :: "rx \<Rightarrow> (pystr list \<Rightarrow> pystr \<Rightarrow> 'a option) \<Rightarrow> pystr list \<Rightarrow> pystr \<Rightarrow> 'a option" where
  "rxm (Lit l) k g s = (case strip_prefix l s of Some s' \<Rightarrow> k g s' | None \<Rightarrow> None)"
| "rxm (LitCI l) k g s = (case strip_prefix_ci l s of Some s' \<Rightarrow> k g s' | None \<Rightarrow> None)"
| "rxm (Star c) k g s = star_greedy (cset_ok c) (k g) s"
| "rxm (Plus c) k g s =
     (case s of [] \<Rightarrow> None
      | x # xs \<Rightarrow> if cset_ok c x then star_greedy (cset_ok c) (k g) xs else None)"
| "rxm (LazyStar c) k g s = star_lazy (cset_ok c) (k g) s"
| "rxm (AtLeast n c) k g s =
     (if n \<le> length s \<and> list_all (cset_ok c) (take n s)
      then star_greedy (cset_ok c) (k g) (drop n s) else None)"
| "rxm Eos k g s = (if s = [] \<or> s = [10] then k g s else None)"
| "rxm (Opt r) k g s = (case rxm r k g s of Some a \<Rightarrow> Some a | None \<Rightarrow> k g s)"
| "rxm (Alt r1 r2) k g s = (case rxm r1 k g s of Some a \<Rightarrow> Some a | None \<Rightarrow> rxm r2 k g s)"
| "rxm (Cat r1 r2) k g s = rxm r1 (\<lambda>g' s'. rxm r2 k g' s') g s"
| "rxm (Grp r) k g s = rxm r (\<lambda>g' s'. k (g' @ [take (length s - length s') s]) s') g s"

definition cats :: "rx list \<Rightarrow> rx" where
  "cats rs = foldr Cat rs (Lit [])"

text \<open>\<open>re.match\<close>: anchored at the start, returning the groups and the unread rest.\<close>

definition re_match :: "rx \<Rightarrow> pystr \<Rightarrow> (pystr list \<times> pystr) option" where
  "re_match r s = rxm r (\<lambda>g s'. Some (g, s')) [] s"

text \<open>\<open>re.search\<close>: the leftmost position at which the pattern matches.\<close>

fun re_search :: "rx \<Rightarrow> pystr \<Rightarrow> (pystr list \<times> pystr) option" where
  "re_search r [] = re_match r []"
| "re_search r (c # cs) =
     (case re_match r (c # cs) of Some m \<Rightarrow> Some m | None \<Rightarrow> re_search r cs)"

text \<open>
  \<open>re.sub(pattern, '', s)\<close>: every non-overlapping match, scanning from the left, is
  deleted. After a match of \<open>n > 0\<close> characters the scan resumes behind it; where the
  pattern matches the empty string or not at all the character is kept.
\<close>

fun re_sub_empty :: "rx \<Rightarrow> pystr \<Rightarrow> pystr" where
  "re_sub_empty r [] = []"
| "re_sub_empty r (c # cs) =
     (case re_match r (c # cs) of
        None \<Rightarrow> c # re_sub_empty r cs
      | Some (g, rest) \<Rightarrow>
          (if length rest \<le> length cs
           then re_sub_empty r (drop (length cs - length rest) cs)
           else c # re_sub_empty r cs))"

text \<open>Line 142: the reroute pattern
  \<^verbatim>\<open>https://itty\.bitty\.site/[^#]*#(?:[^/]*)/?(?:#|/)?data:text/html;charset=utf-8;base64,(.+)\<close>\<close>

definition reroute_rx :: rx where
  "reroute_rx = cats
     [Lit (ustr ''https://itty.bitty.site/''), Star (Except 35), Lit (ustr ''#''),
      Star (Except 47), Opt (Lit (ustr ''/'')), Opt (Alt (Lit (ustr ''#'')) (Lit (ustr ''/''))),
      Lit (ustr ''data:text/html;charset=utf-8;base64,''), Grp (Plus Dot)]"

text \<open>Line 156: the standard pattern \<^verbatim>\<open>https://itty\.bitty\.site/#(.*?)/\?(.*)\<close>\<close>

definition standard_rx :: rx where
  "standard_rx = cats
     [Lit (ustr ''https://itty.bitty.site/#''), Grp (LazyStar Dot), Lit (ustr ''/?''),
      Grp (Star Dot)]"

text \<open>\<open>reroute_match.group(1)\<close> and \<open>standard_match.groups()\<close>, \<open>None\<close> when the
  pattern does not match.\<close>

definition reroute_match :: "pystr \<Rightarrow> pystr option" where
  "reroute_match hashlink =
     (case re_match reroute_rx hashlink of
        Some ([b64_data], rest) \<Rightarrow> Some b64_data
      | _ \<Rightarrow> None)"

definition standard_match :: "pystr \<Rightarrow> (pystr \<times> pystr) option" where
  "standard_match hashlink =
     (case re_match standard_rx hashlink of
        Some ([title, b64_part], rest) \<Rightarrow> Some (title, b64_part)
      | _ \<Rightarrow> None)"

section \<open>Library functions on strings and bytes\<close>

subsection \<open>\<open>str\<close> methods\<close>

text \<open>\<open>sub in s\<close>\<close>

fun is_substring :: "pystr \<Rightarrow> pystr \<Rightarrow> bool" where
  "is_substring sub [] = (sub = [])"
| "is_substring sub (c # cs) = (strip_prefix sub (c # cs) \<noteq> None \<or> is_substring sub cs)"

text \<open>\<open>s.split(sep)\<close> for a non-empty separator; \<open>cur\<close> is the piece being read.\<close>

fun split_from :: "pystr \<Rightarrow> pystr \<Rightarrow> pystr \<Rightarrow> pystr list" where
  "split_from sep cur [] = [cur]"
| "split_from sep cur (c # cs) =
     (if strip_prefix sep (c # cs) \<noteq> None
      then cur # split_from sep [] (drop (length sep - 1) cs)
      else split_from sep (cur @ [c]) cs)"

definition py_split :: "pystr \<Rightarrow> pystr \<Rightarrow> pystr list" where
  "py_split sep s = split_from sep [] s"

text \<open>\<open>s.replace(old, new)\<close> for a non-empty \<open>old\<close>.\<close>

fun py_replace :: "pystr \<Rightarrow> pystr \<Rightarrow> pystr \<Rightarrow> pystr" where
  "py_replace old new [] = []"
| "py_replace old new (c # cs) =
     (if strip_prefix old (c # cs) \<noteq> None
      then new @ py_replace old new (drop (length old - 1) cs)
      else c # py_replace old new cs)"

text \<open>\<open>str.isspace\<close> on one code point, and \<open>s.strip()\<close>.\<close>

definition is_space :: "nat \<Rightarrow> bool" where
  "is_space c \<longleftrightarrow>
     (9 \<le> c \<and> c \<le> 13) \<or> (28 \<le> c \<and> c \<le> 32) \<or> c = 133 \<or> c = 160 \<or> c = 5760
     \<or> (8192 \<le> c \<and> c \<le> 8202) \<or> c = 8232 \<or> c = 8233 \<or> c = 8239 \<or> c = 8287
     \<or> c = 12288"

definition py_strip :: "pystr \<Rightarrow> pystr" where
  "py_strip s = rev (dropWhile is_space (rev (dropWhile is_space s)))"

subsection \<open>UTF-8\<close>

text \<open>
  \<open>s.encode()\<close> and \<open>b.decode('utf-8')\<close>, both strict: encoding fails on a surrogate
  code point, decoding on anything but the shortest encoding of a scalar value.
  \<open>None\<close> is \<open>UnicodeEncodeError\<close>, respectively \<open>UnicodeDecodeError\<close>.
\<close>

definition utf8_enc1 :: "nat \<Rightarrow> byte list option" where
  "utf8_enc1 c =
     (if c < 128 then Some [of_nat c]
      else if c < 2048 then Some [of_nat (192 + c div 64), of_nat (128 + c mod 64)]
      else if c < 65536 then
        (if 55296 \<le> c \<and> c \<le> 57343 then None
         else Some [of_nat (224 + c div 4096), of_nat (128 + c div 64 mod 64),
                    of_nat (128 + c mod 64)])
      else if c < 1114112 then
        Some [of_nat (240 + c div 262144), of_nat (128 + c div 4096 mod 64),
              of_nat (128 + c div 64 mod 64), of_nat (128 + c mod 64)]
      else None)"

fun utf8_encode :: "pystr \<Rightarrow> byte list option" where
  "utf8_encode [] = Some []"
| "utf8_encode (c # cs) =
     (case utf8_enc1 c of None \<Rightarrow> None
      | Some bs \<Rightarrow> (case utf8_encode cs of None \<Rightarrow> None | Some rest \<Rightarrow> Some (bs @ rest)))"

definition is_cont :: "nat \<Rightarrow> bool" where
  "is_cont b \<longleftrightarrow> 128 \<le> b \<and> b < 192"

fun utf8_dec :: "nat list \<Rightarrow> pystr option" where
  "utf8_dec [] = Some []"
| "utf8_dec (b # bs) =
     (if b < 128 then map_option (Cons b) (utf8_dec bs)
      else if 192 \<le> b \<and> b < 224 then
        (case bs of
           b1 # r \<Rightarrow>
             (let c = (b - 192) * 64 + (b1 - 128)
              in if is_cont b1 \<and> 128 \<le> c then map_option (Cons c) (utf8_dec r) else None)
         | _ \<Rightarrow> None)
      else if 224 \<le> b \<and> b < 240 then
        (case bs of
           b1 # b2 # r \<Rightarrow>
             (let c = (b - 224) * 4096 + (b1 - 128) * 64 + (b2 - 128)
              in if is_cont b1 \<and> is_cont b2 \<and> 2048 \<le> c \<and> \<not> (55296 \<le> c \<and> c \<le> 57343)
                 then map_option (Cons c) (utf8_dec r) else None)
         | _ \<Rightarrow> None)
      else if 240 \<le> b \<and> b < 248 then
        (case bs of
           b1 # b2 # b3 # r \<Rightarrow>
             (let c = (b - 240) * 262144 + (b1 - 128) * 4096 + (b2 - 128) * 64 + (b3 - 128)
              in if is_cont b1 \<and> is_cont b2 \<and> is_cont b3 \<and> 65536 \<le> c \<and> c < 1114112
                 then map_option (Cons c) (utf8_dec r) else None)
         | _ \<Rightarrow> None)
      else None)"

definition utf8_decode :: "byte list \<Rightarrow> pystr option" where
  "utf8_decode bs = utf8_dec (map unat bs)"

subsection \<open>Base64\<close>

text \<open>
  \<open>base64.b64encode\<close> (RFC 4648, full padding) and \<open>base64.b64decode\<close> with its default
  \<open>validate=False\<close>, which is \<open>binascii.a2b_base64\<close> in its lenient mode: characters
  outside the alphabet are skipped, a pad character ends the input once it completes a
  quad that holds at least two data characters, and input that ends inside a quad raises
  \<open>binascii.Error\<close>. A \<open>str\<close> argument is first encoded as ASCII, which raises
  \<open>ValueError\<close> on a code point above 127.
\<close>

definition b64_char :: "nat \<Rightarrow> nat" where
  "b64_char i =
     (if i < 26 then 65 + i else if i < 52 then 71 + i else if i < 62 then i - 4
      else if i = 62 then 43 else 47)"

definition b64_val :: "nat \<Rightarrow> nat option" where
  "b64_val c =
     (if 65 \<le> c \<and> c \<le> 90 then Some (c - 65)
      else if 97 \<le> c \<and> c \<le> 122 then Some (c - 71)
      else if 48 \<le> c \<and> c \<le> 57 then Some (c + 4)
      else if c = 43 then Some 62
      else if c = 47 then Some 63
      else None)"

fun b64enc :: "nat list \<Rightarrow> pystr" where
  "b64enc (a # b # c # rest) =
     [b64_char (a div 4), b64_char (a mod 4 * 16 + b div 16),
      b64_char (b mod 16 * 4 + c div 64), b64_char (c mod 64)] @ b64enc rest"
| "b64enc [a, b] =
     [b64_char (a div 4), b64_char (a mod 4 * 16 + b div 16), b64_char (b mod 16 * 4), 61]"
| "b64enc [a] = [b64_char (a div 4), b64_char (a mod 4 * 16), 61, 61]"
| "b64enc [] = []"

definition b64encode :: "byte list \<Rightarrow> pystr" where
  "b64encode bs = b64enc (map unat bs)"

text \<open>
  The decoding loop with its state: \<open>quad_pos\<close>, the bits left over from the previous
  characters (\<open>leftchar\<close>), the number of pad characters seen since the last data
  character (\<open>pads\<close>) and the bytes written so far.
\<close>

fun a2b_base64 :: "pystr \<Rightarrow> nat \<Rightarrow> nat \<Rightarrow> nat \<Rightarrow> byte list \<Rightarrow> exn + byte list" where
  "a2b_base64 [] quad_pos leftchar pads out =
     (if quad_pos = 0 then Inr out else Inl BinasciiError)"
| "a2b_base64 (c # cs) quad_pos leftchar pads out =
     (if c = 61 then
        (if 2 \<le> quad_pos \<and> 4 \<le> quad_pos + (pads + 1) then Inr out
         else a2b_base64 cs quad_pos leftchar (if 2 \<le> quad_pos then pads + 1 else pads) out)
      else
        (case b64_val c of
           None \<Rightarrow> a2b_base64 cs quad_pos leftchar pads out
         | Some v \<Rightarrow>
             (if quad_pos = 0 then a2b_base64 cs 1 v 0 out
              else if quad_pos = 1 then
                a2b_base64 cs 2 (v mod 16) 0 (out @ [of_nat (leftchar * 4 + v div 16)])
              else if quad_pos = 2 then
                a2b_base64 cs 3 (v mod 4) 0 (out @ [of_nat (leftchar * 16 + v div 4)])
              else a2b_base64 cs 0 0 0 (out @ [of_nat (leftchar * 64 + v)]))))"

definition b64decode :: "pystr \<Rightarrow> exn + byte list" where
  "b64decode s =
     (if \<exists>c \<in> set s. 128 \<le> c then Inl ValueError else a2b_base64 s 0 0 0 [])"

section \<open>The external capabilities\<close>

text \<open>
  \<open>decode_hashlink\<close> calls three libraries whose results the source does not
  determine; they are the fields of the environment. Each call returns its value or
  the exception it raises.
  \<^item> \<open>lzma_decompress\<close> is \<open>lzma.decompress(data, format=lzma.FORMAT_ALONE)\<close>;
  \<^item> \<open>execjs_compile\<close> is \<open>execjs.compile(JS_LZMA_WORKER)\<close> (\<open>None\<close>: a context was
    built) and \<open>execjs_eval\<close> is \<open>ctx.eval\<close> of \<open>LZMA.decompress\<close> on the byte list;
  \<^item> \<open>requests_get k url timeout\<close> is the \<open>k\<close>-th call of \<open>requests.get\<close> in one run.
\<close>

record response =
  status_code :: int
  resp_text :: pystr

datatype js_value = JsStr pystr | JsBytes "byte list" | JsOther

record env =
  lzma_decompress :: "byte list \<Rightarrow> exn + byte list"
  execjs_compile :: "exn option"
  execjs_eval :: "byte list \<Rightarrow> exn + js_value"
  requests_get :: "nat \<Rightarrow> pystr \<Rightarrow> nat \<Rightarrow> exn + response"

section \<open>Results and the diagnostic log\<close>

text \<open>
  \<open>decode_hashlink\<close> returns a pair of a text and the version label. The text of a
  failure is one of the messages below behind \<open>Failed to decode hashlink: \<close>; the
  constructor of \<open>result\<close> records which \<open>return\<close> statement produced the pair.
\<close>

datatype failure =
    Invalid_reroute        \<comment> \<open>line 153: \<open>Invalid base64 data in reroute\<close>\<close>
  | No_content             \<comment> \<open>line 245: \<open>Unable to extract content from official site response\<close>\<close>
  | Bad_status int         \<comment> \<open>line 248: \<open>Official site returned status \<dots>\<close>\<close>
  | No_network             \<comment> \<open>line 251: \<open>No network connection available \<dots>\<close>\<close>
  | Fetch_failed exn       \<comment> \<open>line 254: \<open>Official site fetch failed - \<dots>\<close>\<close>
  | Unexpected exn         \<comment> \<open>line 259: the text of the exception\<close>

datatype result = Document pystr string | Failure failure string

text \<open>One constructor for each logging call of \<open>decode_hashlink\<close> and one for each
  HTTP request it issues, in the order of the source.\<close>

datatype event =
    Info_start                     \<comment> \<open>line 140\<close>
  | Info_reroute_check             \<comment> \<open>line 145\<close>
  | Info_reroute_success           \<comment> \<open>line 149\<close>
  | Error_reroute_invalid exn      \<comment> \<open>line 152\<close>
  | Info_standard_check            \<comment> \<open>line 159\<close>
  | Info_padding_attempt nat       \<comment> \<open>line 165\<close>
  | Info_padding_success           \<comment> \<open>line 171\<close>
  | Error_lzma nat                 \<comment> \<open>line 174\<close>
  | Error_padding_failed nat       \<comment> \<open>line 177\<close>
  | Info_js_attempt                \<comment> \<open>line 181\<close>
  | Info_js_success                \<comment> \<open>lines 195 and 198\<close>
  | Error_js_failed exn            \<comment> \<open>line 201\<close>
  | Info_fetch_attempt             \<comment> \<open>line 205\<close>
  | Http_get pystr nat             \<comment> \<open>lines 208 and 223: \<open>requests.get(url, timeout)\<close>\<close>
  | Info_fetch_received            \<comment> \<open>line 211\<close>
  | Info_toast_accepted            \<comment> \<open>line 216\<close>
  | Info_redirect_detected pystr   \<comment> \<open>line 222\<close>
  | Info_toast_accepted_retry      \<comment> \<open>line 229\<close>
  | Info_fetch_success_retry       \<comment> \<open>line 232\<close>
  | Error_no_body_retry            \<comment> \<open>line 235\<close>
  | Error_retry_status int         \<comment> \<open>line 237\<close>
  | Info_fetch_success             \<comment> \<open>line 241\<close>
  | Error_no_body_initial          \<comment> \<open>line 244\<close>
  | Error_initial_status int       \<comment> \<open>line 247\<close>
  | Error_no_network               \<comment> \<open>line 250\<close>
  | Error_fetch_failed exn         \<comment> \<open>line 253\<close>
  | Error_unexpected exn           \<comment> \<open>line 258\<close>

text \<open>How a block of the function body ends: with a \<open>return\<close>, with an exception that
  leaves the block, or by running off its end.\<close>

datatype flow = Return result | Raise exn | Fallthrough

section \<open>\<open>decode_hashlink\<close>\<close>

subsection \<open>Strategy 1: the reroute form (lines 142--153)\<close>

definition v_reroute :: string where "v_reroute = ''PvtPpr v0 (reroute)''"
definition v_standard :: string where "v_standard = ''IBS v1 / PvtPpr v1''"
definition v_js :: string where "v_js = ''PvtPpr v0 (JS worker)''"
definition v_fetch :: string where "v_fetch = ''Fail-safe (official site)''"

text \<open>\<open>base64.b64decode(b64_data).decode('utf-8')\<close>\<close>

definition b64_utf8 :: "pystr \<Rightarrow> exn + pystr" where
  "b64_utf8 b64_data =
     (case b64decode b64_data of
        Inl e \<Rightarrow> Inl e
      | Inr raw \<Rightarrow> (case utf8_decode raw of None \<Rightarrow> Inl UnicodeDecodeError | Some t \<Rightarrow> Inr t))"

definition reroute_phase :: "pystr \<Rightarrow> (event list \<times> result) option" where
  "reroute_phase hashlink =
     (case reroute_match hashlink of
        None \<Rightarrow> None
      | Some b64_data \<Rightarrow>
          (case b64_utf8 b64_data of
             Inr decoded_html \<Rightarrow>
               Some ([Info_reroute_check, Info_reroute_success], Document decoded_html v_reroute)
           | Inl e \<Rightarrow>
               Some ([Info_reroute_check, Error_reroute_invalid e], Failure Invalid_reroute v_reroute)))"

subsection \<open>Strategy 2: the standard form (lines 156--178)\<close>

definition header_lengths :: "nat list" where
  "header_lengths = [0, 5, 9, 13]"

text \<open>The inner loop, lines 168--175. Only \<open>lzma.LZMAError\<close> is handled here.\<close>

fun skip_loop :: "env \<Rightarrow> byte list \<Rightarrow> nat list \<Rightarrow> event list \<times> flow" where
  "skip_loop env compressed [] = ([], Fallthrough)"
| "skip_loop env compressed (skip # rest) =
     (case lzma_decompress env (drop skip compressed) of
        Inr decompressed \<Rightarrow>
          ([Info_padding_success],
           case utf8_decode decompressed of
             Some t \<Rightarrow> Return (Document t v_standard)
           | None \<Rightarrow> Raise UnicodeDecodeError)
      | Inl e \<Rightarrow>
          (if e = LZMAError
           then (case skip_loop env compressed rest of (ev, f) \<Rightarrow> (Error_lzma skip # ev, f))
           else ([], Raise e)))"

text \<open>The outer loop, lines 162--178. Only \<open>base64.binascii.Error\<close> is handled here,
  whether \<open>b64decode\<close> or the inner loop raised it.\<close>

fun padding_loop :: "env \<Rightarrow> pystr \<Rightarrow> nat list \<Rightarrow> event list \<times> flow" where
  "padding_loop env b64_part [] = ([], Fallthrough)"
| "padding_loop env b64_part (padding # rest) =
     (case (case b64decode (b64_part @ replicate padding 61) of
              Inl e \<Rightarrow> ([], Raise e)
            | Inr compressed \<Rightarrow> skip_loop env compressed header_lengths) of
        (ev, Return r) \<Rightarrow> (Info_padding_attempt padding # ev, Return r)
      | (ev, Fallthrough) \<Rightarrow>
          (case padding_loop env b64_part rest of
             (ev', f) \<Rightarrow> (Info_padding_attempt padding # ev @ ev', f))
      | (ev, Raise e) \<Rightarrow>
          (if e = BinasciiError
           then (case padding_loop env b64_part rest of
                   (ev', f) \<Rightarrow>
                     (Info_padding_attempt padding # ev @ Error_padding_failed padding # ev', f))
           else (Info_padding_attempt padding # ev, Raise e)))"

definition standard_phase :: "env \<Rightarrow> (pystr \<times> pystr) option \<Rightarrow> event list \<times> flow" where
  "standard_phase env sm =
     (case sm of
        None \<Rightarrow> ([], Fallthrough)
      | Some (title, b64_part) \<Rightarrow>
          (case padding_loop env b64_part [0, 1, 2, 3] of
             (ev, f) \<Rightarrow> (Info_standard_check # ev, f)))"

subsection \<open>Strategy 3: the JavaScript decompressor (lines 181--202)\<close>

text \<open>\<open>xs[-1]\<close> raises \<open>IndexError\<close> on an empty list.\<close>

definition index_last :: "'a list \<Rightarrow> exn + 'a" where
  "index_last xs = (if xs = [] then Inl IndexError else Inr (last xs))"

text \<open>Lines 185--189: the payload of the standard form, else everything behind the last
  \<open>/?\<close>.\<close>

definition js_payload :: "pystr \<Rightarrow> (pystr \<times> pystr) option \<Rightarrow> exn + pystr" where
  "js_payload hashlink sm =
     (case sm of
        Some (title, b64_part) \<Rightarrow> Inr b64_part
      | None \<Rightarrow> index_last (py_split (ustr ''/?'') hashlink))"

text \<open>Line 190\<close>

definition pad_to_quad :: "pystr \<Rightarrow> pystr" where
  "pad_to_quad b64_part = b64_part @ replicate ((4 - length b64_part mod 4) mod 4) 61"

text \<open>Lines 191--199 on the padded payload: \<open>Some\<close> document when the function returns,
  \<open>None\<close> when the value of the script is neither a \<open>str\<close> nor \<open>bytes\<close>.\<close>

definition js_decode :: "env \<Rightarrow> pystr \<Rightarrow> event list \<times> (exn + pystr option)" where
  "js_decode env padded_b64 =
     (case b64decode padded_b64 of
        Inl e \<Rightarrow> ([], Inl e)
      | Inr compressed \<Rightarrow>
          (case execjs_eval env compressed of
             Inl e \<Rightarrow> ([], Inl e)
           | Inr (JsStr t) \<Rightarrow> ([Info_js_success], Inr (Some t))
           | Inr (JsBytes b) \<Rightarrow>
               ([Info_js_success],
                case utf8_decode b of None \<Rightarrow> Inl UnicodeDecodeError | Some t \<Rightarrow> Inr (Some t))
           | Inr JsOther \<Rightarrow> ([], Inr None)))"

definition js_try :: "env \<Rightarrow> pystr \<Rightarrow> (pystr \<times> pystr) option \<Rightarrow> event list \<times> (exn + pystr option)" where
  "js_try env hashlink sm =
     (case execjs_compile env of
        Some e \<Rightarrow> ([], Inl e)
      | None \<Rightarrow>
          (case js_payload hashlink sm of
             Inl e \<Rightarrow> ([], Inl e)
           | Inr b64_part \<Rightarrow> js_decode env (pad_to_quad b64_part)))"

text \<open>The handler of line 200 takes \<open>execjs.Error\<close> and \<open>base64.binascii.Error\<close>.\<close>

definition js_phase :: "env \<Rightarrow> pystr \<Rightarrow> (pystr \<times> pystr) option \<Rightarrow> event list \<times> flow" where
  "js_phase env hashlink sm =
     (case js_try env hashlink sm of
        (ev, Inr (Some t)) \<Rightarrow> (Info_js_attempt # ev, Return (Document t v_js))
      | (ev, Inr None) \<Rightarrow> (Info_js_attempt # ev, Fallthrough)
      | (ev, Inl e) \<Rightarrow>
          (if e = ExecjsError \<or> e = BinasciiError
           then (Info_js_attempt # ev @ [Error_js_failed e], Fallthrough)
           else (Info_js_attempt # ev, Raise e)))"

subsection \<open>Strategy 4: fetching from the official site (lines 205--254)\<close>

definition toast_marker :: pystr where
  \<open>toast_marker = ustr ''<div id="toast">''\<close>

definition toast_button :: pystr where
  \<open>toast_button = ustr ''<button onclick="dismiss()">I understand</button>''\<close>

definition toast_script :: pystr where
  \<open>toast_script = ustr ''<script>dismiss();</script>''\<close>

text \<open>Lines 215 and 228: \<^verbatim>\<open><div id="toast".*?</div>\<close> under \<open>re.DOTALL\<close>\<close>

definition toast_rx :: rx where
  \<open>toast_rx = cats [Lit (ustr ''<div id="toast"''), LazyStar DotAll, Lit (ustr ''</div>'')]\<close>

text \<open>Line 218:
  \<^verbatim>\<open><script nomodule> location\.href = "/v1/" \+ location\.hash </script>\<close>\<close>

definition redirect_rx :: rx where
  \<open>redirect_rx = Lit (ustr ''<script nomodule> location.href = "/v1/" + location.hash </script>'')\<close>

text \<open>Lines 230 and 239: \<^verbatim>\<open><body[^>]*>(.*?)</body>\<close> under
  \<open>re.IGNORECASE | re.DOTALL\<close>\<close>

definition body_rx :: rx where
  "body_rx = cats
     [LitCI (ustr ''<body''), Star (Except 62), LitCI (ustr ''>''), Grp (LazyStar DotAll),
      LitCI (ustr ''</body>'')]"

definition body_search :: "pystr \<Rightarrow> pystr option" where
  "body_search html =
     (case re_search body_rx html of Some ([content], rest) \<Rightarrow> Some content | _ \<Rightarrow> None)"

text \<open>Lines 213--216 and 226--229: the rewritten page and whether the prompt was there.\<close>

definition accept_toast :: "pystr \<Rightarrow> pystr \<times> bool" where
  "accept_toast html =
     (if is_substring toast_marker html
      then (re_sub_empty toast_rx (py_replace toast_button toast_script html), True)
      else (html, False))"

text \<open>Lines 220--221: \<open>hashlink.split('#')[1]\<close> raises \<open>IndexError\<close> when the hashlink
  has no \<open>#\<close>.\<close>

definition retry_url :: "pystr \<Rightarrow> exn + pystr" where
  "retry_url hashlink =
     (case py_split (ustr ''#'') hashlink of
        p # hash_part # ps \<Rightarrow> Inr (ustr ''https://itty.bitty.site/v1/#'' @ hash_part)
      | _ \<Rightarrow> Inl IndexError)"

text \<open>Lines 219--237, entered when the redirect script was found: \<open>Some\<close> result when
  the block returns, \<open>None\<close> when control goes on to line 239.\<close>

definition fetch_retry :: "env \<Rightarrow> pystr \<Rightarrow> event list \<times> (exn + result option)" where
  "fetch_retry env hashlink =
     (case retry_url hashlink of
        Inl e \<Rightarrow> ([], Inl e)
      | Inr retry_hashlink \<Rightarrow>
          (case requests_get env 1 retry_hashlink 10 of
             Inl e \<Rightarrow> ([Info_redirect_detected retry_hashlink, Http_get retry_hashlink 10], Inl e)
           | Inr retry_response \<Rightarrow>
               (if status_code retry_response = 200 then
                  (case accept_toast (resp_text retry_response) of
                     (retry_html, toast) \<Rightarrow>
                       (case body_search retry_html of
                          Some content \<Rightarrow>
                            ([Info_redirect_detected retry_hashlink, Http_get retry_hashlink 10]
                               @ (if toast then [Info_toast_accepted_retry] else [])
                               @ [Info_fetch_success_retry],
                             Inr (Some (Document (py_strip content) (v_fetch @ '' (via v1 retry)''))))
                        | None \<Rightarrow>
                            ([Info_redirect_detected retry_hashlink, Http_get retry_hashlink 10]
                               @ (if toast then [Info_toast_accepted_retry] else [])
                               @ [Error_no_body_retry],
                             Inr None)))
                else
                  ([Info_redirect_detected retry_hashlink, Http_get retry_hashlink 10,
                    Error_retry_status (status_code retry_response)],
                   Inr None))))"

text \<open>Lines 238--245 on the rewritten first page.\<close>

definition extract_initial :: "pystr \<Rightarrow> event list \<times> result" where
  "extract_initial html_content =
     (case body_search html_content of
        Some content \<Rightarrow> ([Info_fetch_success], Document (py_strip content) v_fetch)
      | None \<Rightarrow> ([Error_no_body_initial], Failure No_content v_fetch))"

text \<open>Lines 208--248, the body of the inner \<open>try\<close>.\<close>

definition fetch_body :: "env \<Rightarrow> pystr \<Rightarrow> event list \<times> (exn + result)" where
  "fetch_body env hashlink =
     (case requests_get env 0 hashlink 10 of
        Inl e \<Rightarrow> ([Http_get hashlink 10], Inl e)
      | Inr response \<Rightarrow>
          (if status_code response = 200 then
             (case accept_toast (resp_text response) of
                (html_content, toast) \<Rightarrow>
                  (case (if re_search redirect_rx html_content \<noteq> None
                         then fetch_retry env hashlink else ([], Inr None)) of
                     (ev, Inl e) \<Rightarrow>
                       ([Http_get hashlink 10, Info_fetch_received]
                          @ (if toast then [Info_toast_accepted] else []) @ ev,
                        Inl e)
                   | (ev, Inr (Some r)) \<Rightarrow>
                       ([Http_get hashlink 10, Info_fetch_received]
                          @ (if toast then [Info_toast_accepted] else []) @ ev,
                        Inr r)
                   | (ev, Inr None) \<Rightarrow>
                       (case extract_initial html_content of
                          (ev', r) \<Rightarrow>
                            ([Http_get hashlink 10, Info_fetch_received]
                               @ (if toast then [Info_toast_accepted] else []) @ ev @ ev',
                             Inr r))))
           else
             ([Http_get hashlink 10, Error_initial_status (status_code response)],
              Inr (Failure (Bad_status (status_code response)) v_fetch))))"

text \<open>Lines 205--254 with the two handlers: \<open>requests.exceptions.ConnectionError\<close>, then
  every other \<open>Exception\<close>. Nothing leaves this block but a \<open>return\<close>.\<close>

definition fetch_phase :: "env \<Rightarrow> pystr \<Rightarrow> event list \<times> result" where
  "fetch_phase env hashlink =
     (case fetch_body env hashlink of
        (ev, Inr r) \<Rightarrow> (Info_fetch_attempt # ev, r)
      | (ev, Inl e) \<Rightarrow>
          (if e = ConnectionError
           then (Info_fetch_attempt # ev @ [Error_no_network], Failure No_network v_fetch)
           else (Info_fetch_attempt # ev @ [Error_fetch_failed e], Failure (Fetch_failed e) v_fetch)))"

subsection \<open>The whole function (lines 136--259)\<close>

text \<open>
  The strategies in the order of the source. An exception that leaves strategy 2 or 3 is
  taken by the outer handler of line 257, which returns its text with the version label
  assigned last. The result is the log written and the pair returned.
\<close>

definition local_phases :: "env \<Rightarrow> pystr \<Rightarrow> event list \<times> result option" where
  "local_phases env hashlink =
     (case reroute_phase hashlink of
        Some (ev, r) \<Rightarrow> (ev, Some r)
      | None \<Rightarrow>
          (case standard_phase env (standard_match hashlink) of
             (ev, Return r) \<Rightarrow> (ev, Some r)
           | (ev, Raise e) \<Rightarrow> (ev @ [Error_unexpected e], Some (Failure (Unexpected e) v_standard))
           | (ev, Fallthrough) \<Rightarrow>
               (case js_phase env hashlink (standard_match hashlink) of
                  (ev', Return r) \<Rightarrow> (ev @ ev', Some r)
                | (ev', Raise e) \<Rightarrow>
                    (ev @ ev' @ [Error_unexpected e], Some (Failure (Unexpected e) v_js))
                | (ev', Fallthrough) \<Rightarrow> (ev @ ev', None))))"

definition decode_hashlink :: "env \<Rightarrow> pystr \<Rightarrow> event list \<times> result" where
  "decode_hashlink env hashlink =
     (case local_phases env hashlink of
        (ev, Some r) \<Rightarrow> (Info_start # ev, r)
      | (ev, None) \<Rightarrow>
          (case fetch_phase env hashlink of (ev', r) \<Rightarrow> (Info_start # ev @ ev', r)))"

section \<open>Reading the log\<close>

text \<open>The strategy an entry of the log belongs to; 0 is the entry written before the
  first strategy and 5 the entry of the outer handler.\<close>

fun phase_of :: "event \<Rightarrow> nat" where
  "phase_of Info_start = 0"
| "phase_of Info_reroute_check = 1"
| "phase_of Info_reroute_success = 1"
| "phase_of (Error_reroute_invalid e) = 1"
| "phase_of Info_standard_check = 2"
| "phase_of (Info_padding_attempt p) = 2"
| "phase_of Info_padding_success = 2"
| "phase_of (Error_lzma k) = 2"
| "phase_of (Error_padding_failed p) = 2"
| "phase_of Info_js_attempt = 3"
| "phase_of Info_js_success = 3"
| "phase_of (Error_js_failed e) = 3"
| "phase_of (Error_unexpected e) = 5"
| "phase_of ev = 4"

text \<open>The entries that announce a decoded document.\<close>

fun is_success :: "event \<Rightarrow> bool" where
  "is_success Info_reroute_success = True"
| "is_success Info_padding_success = True"
| "is_success Info_js_success = True"
| "is_success Info_fetch_success_retry = True"
| "is_success Info_fetch_success = True"
| "is_success ev = False"

definition successes :: "event list \<Rightarrow> nat" where
  "successes ev = length (filter is_success ev)"

text \<open>What the log of a block looks like, given how the block ended: no success entry
  before falling through, exactly one, in last place, before a document is returned, and
  never more than one; an exception after a success entry is a failed UTF-8 decoding.\<close>

definition closes :: "event list \<Rightarrow> flow \<Rightarrow> bool" where
  "closes ev f =
     (case f of
        Fallthrough \<Rightarrow> successes ev = 0
      | Return (Document t v) \<Rightarrow> ev \<noteq> [] \<and> is_success (last ev) \<and> successes ev = 1
      | Return (Failure m v) \<Rightarrow> successes ev \<le> 1
      | Raise e \<Rightarrow> successes ev = 0 \<or> (e = UnicodeDecodeError \<and> successes ev = 1))"

section \<open>Concrete environments\<close>

text \<open>A machine without network and without a JavaScript runtime, whose LZMA decoder
  rejects every input.\<close>

definition env_offline :: env where
  "env_offline =
     \<lparr>lzma_decompress = (\<lambda>b. Inl LZMAError), execjs_compile = Some ExecjsError,
      execjs_eval = (\<lambda>b. Inl ExecjsError), requests_get = (\<lambda>k url t. Inl ConnectionError)\<rparr>"

text \<open>As \<open>env_offline\<close>, but with an LZMA decoder that knows one stream: the
  \<open>FORMAT_ALONE\<close> encoding of the single byte \<open>0xff\<close>, which is not UTF-8.\<close>

definition lzma_of_ff :: "byte list" where
  "lzma_of_ff = [93, 0, 0, 0, 4, 255, 255, 255, 255, 255, 255, 255, 255, 0, 127, 193, 251,
                 255, 255, 255, 224, 0, 0, 0]"

definition env_lzma_ff :: env where
  "env_lzma_ff =
     \<lparr>lzma_decompress = (\<lambda>b. if b = lzma_of_ff then Inr [255] else Inl LZMAError),
      execjs_compile = Some ExecjsError,
      execjs_eval = (\<lambda>b. Inl ExecjsError), requests_get = (\<lambda>k url t. Inl ConnectionError)\<rparr>"

section \<open>Strategy 2 as a search\<close>

text \<open>
  The sixteen candidates of strategy 2 as the specification lists them: the padding
  counts 0 to 3 in the outer position, the skip offsets 0, 5, 9, 13 in the inner one.
\<close>

definition combinations :: "(nat \<times> nat) list" where
  "combinations = concat (map (\<lambda>padding. map (Pair padding) [0, 5, 9, 13]) [0, 1, 2, 3])"

text \<open>One candidate: base64 decoding with \<open>padding\<close> pad characters appended, then LZMA
  decompression behind \<open>skip\<close> bytes.\<close>

definition candidate :: "env \<Rightarrow> pystr \<Rightarrow> nat \<times> nat \<Rightarrow> exn + byte list" where
  "candidate env b64_part pk =
     (case b64decode (b64_part @ replicate (fst pk) 61) of
        Inl e \<Rightarrow> Inl e
      | Inr compressed \<Rightarrow> lzma_decompress env (drop (snd pk) compressed))"

text \<open>The failures that the two loops swallow.\<close>

definition swallowed :: "exn + byte list \<Rightarrow> bool" where
  "swallowed r \<longleftrightarrow> r = Inl LZMAError \<or> r = Inl BinasciiError"

text \<open>How strategy 2 ends on the first candidate that is not a swallowed failure.\<close>

definition settle :: "exn + byte list \<Rightarrow> flow" where
  "settle r =
     (case r of
        Inl e \<Rightarrow> Raise e
      | Inr decompressed \<Rightarrow>
          (case utf8_decode decompressed of
             Some t \<Rightarrow> Return (Document t v_standard)
           | None \<Rightarrow> Raise UnicodeDecodeError))"

definition first_settled :: "env \<Rightarrow> pystr \<Rightarrow> (nat \<times> nat) list \<Rightarrow> flow" where
  "first_settled env b64_part cands =
     (case find (\<lambda>pk. \<not> swallowed (candidate env b64_part pk)) cands of
        None \<Rightarrow> Fallthrough
      | Some pk \<Rightarrow> settle (candidate env b64_part pk))"

text \<open>As \<open>env_offline\<close>, but with an LZMA decoder that knows the \<open>FORMAT_ALONE\<close>
  encoding (preset 9) of the document \<^verbatim>\<open><p>hi</p>\<close>.\<close>

definition lzma_of_hi :: "byte list" where
  "lzma_of_hi = [93, 0, 0, 0, 4, 255, 255, 255, 255, 255, 255, 255, 255, 0, 30, 28, 3, 198, 154,
                 52, 174, 157, 134, 52, 63, 19, 134, 255, 255, 168, 82, 0, 0]"

definition env_lzma_hi :: env where
  "env_lzma_hi =
     \<lparr>lzma_decompress =
        (\<lambda>b. if b = lzma_of_hi then Inr [60, 112, 62, 104, 105, 60, 47, 112, 62]
              else Inl LZMAError),
      execjs_compile = Some ExecjsError,
      execjs_eval = (\<lambda>b. Inl ExecjsError), requests_get = (\<lambda>k url t. Inl ConnectionError)\<rparr>"

section \<open>Payloads without their padding\<close>

text \<open>\<open>s.rstrip('=')\<close>: a payload whose trailing pad characters were stripped.\<close>

definition strip_padding :: "pystr \<Rightarrow> pystr" where
  "strip_padding s = rev (dropWhile (\<lambda>c. c = 61) (rev s))"

text \<open>The data characters of the encoding, without the pad characters.\<close>

fun b64enc_data :: "nat list \<Rightarrow> pystr" where
  "b64enc_data (a # b # c # rest) =
     [b64_char (a div 4), b64_char (a mod 4 * 16 + b div 16),
      b64_char (b mod 16 * 4 + c div 64), b64_char (c mod 64)] @ b64enc_data rest"
| "b64enc_data [a, b] =
     [b64_char (a div 4), b64_char (a mod 4 * 16 + b div 16), b64_char (b mod 16 * 4)]"
| "b64enc_data [a] = [b64_char (a div 4), b64_char (a mod 4 * 16)]"
| "b64enc_data [] = []"

text \<open>The number of pad characters that the encoding of \<open>n\<close> bytes ends with.\<close>

definition pads_needed :: "nat \<Rightarrow> nat" where
  "pads_needed n = (3 - n mod 3) mod 3"

text \<open>The padding counts that the log shows, in the order of the attempts.\<close>

fun padding_attempts :: "event list \<Rightarrow> nat list" where
  "padding_attempts [] = []"
| "padding_attempts (Info_padding_attempt p # ev) = p # padding_attempts ev"
| "padding_attempts (e # ev) = padding_attempts ev"

text \<open>As \<open>env_offline\<close>, but with a site that answers every request with status 404.\<close>

definition env_404 :: env where
  "env_404 =
     \<lparr>lzma_decompress = (\<lambda>b. Inl LZMAError), execjs_compile = Some ExecjsError,
      execjs_eval = (\<lambda>b. Inl ExecjsError),
      requests_get = (\<lambda>k url t. Inr \<lparr>status_code = 404, resp_text = []\<rparr>)\<rparr>"

text \<open>The HTTP requests that the log shows, in the order they were issued.\<close>

fun gets :: "event list \<Rightarrow> (pystr \<times> nat) list" where
  "gets [] = []"
| "gets (Http_get url timeout # ev) = (url, timeout) # gets ev"
| "gets (e # ev) = gets ev"

text \<open>A site whose first answer is a page with the redirect script and a body, and whose
  every later answer has status 404.\<close>

definition redirect_page :: pystr where
  \<open>redirect_page =
     ustr ''<script nomodule> location.href = "/v1/" + location.hash </script><body>A</body>''\<close>

definition env_redirect_404 :: env where
  "env_redirect_404 =
     \<lparr>lzma_decompress = (\<lambda>b. Inl LZMAError), execjs_compile = Some ExecjsError,
      execjs_eval = (\<lambda>b. Inl ExecjsError),
      requests_get = (\<lambda>k url t. if k = 0 then Inr \<lparr>status_code = 200, resp_text = redirect_page\<rparr>
                                   else Inr \<lparr>status_code = 404, resp_text = []\<rparr>)\<rparr>"

text \<open>The same site when the versioned page exists: the later answers are a page with a
  body of its own.\<close>

definition env_redirect_ok :: env where
  "env_redirect_ok =
     \<lparr>lzma_decompress = (\<lambda>b. Inl LZMAError), execjs_compile = Some ExecjsError,
      execjs_eval = (\<lambda>b. Inl ExecjsError),
      requests_get = (\<lambda>k url t. if k = 0 then Inr \<lparr>status_code = 200, resp_text = redirect_page\<rparr>
                                   else Inr \<lparr>status_code = 200, resp_text = ustr ''<body>B</body>''\<rparr>)\<rparr>"

section \<open>When strategy 2 leaves nothing behind\<close>

text \<open>Strategy 2 is not entered, or each of its sixteen candidates is a swallowed
  failure.\<close>

definition s2_exhausted :: "env \<Rightarrow> pystr \<Rightarrow> bool" where
  "s2_exhausted env hashlink =
     (case standard_match hashlink of
        None \<Rightarrow> True
      | Some (title, b64_part) \<Rightarrow>
          list_all (\<lambda>pk. swallowed (candidate env b64_part pk)) combinations)"

text \<open>A machine with a JavaScript runtime whose decompressor fails, without network and
  with an LZMA decoder that rejects every input.\<close>

definition env_js_fails :: env where
  "env_js_fails =
     \<lparr>lzma_decompress = (\<lambda>b. Inl LZMAError), execjs_compile = None,
      execjs_eval = (\<lambda>b. Inl ExecjsError), requests_get = (\<lambda>k url t. Inl ConnectionError)\<rparr>"


section \<open>Composing a hashlink\<close>

subsection \<open>The input classes (lines 29--86)\<close>

text \<open>
  An input object is the record of its attributes. \<open>sanitize\<close> assigns to \<open>self.value\<close>,
  so that each method returns the object as it leaves it; the three classes differ in
  their constructor and in \<open>render\<close>.
\<close>

record pvtppr_input =
  input_value :: pystr
  placeholder :: pystr
  allow_html :: bool
  allow_links :: bool

definition TitleTextInput :: "pystr \<Rightarrow> pvtppr_input" where
  "TitleTextInput v =
     \<lparr>input_value = v, placeholder = ustr ''Title Goes Here'', allow_html = True,
      allow_links = False\<rparr>"

definition BodyTextField :: "pystr \<Rightarrow> pvtppr_input" where
  "BodyTextField v =
     \<lparr>input_value = v, placeholder = ustr ''Write Here. HTML & JS is allowed.'',
      allow_html = True, allow_links = False\<rparr>"

definition LinkInput :: "pystr \<Rightarrow> pvtppr_input" where
  "LinkInput v =
     \<lparr>input_value = v, placeholder = ustr ''Image Link Here'', allow_html = False,
      allow_links = True\<rparr>"

text \<open>The exceptions of \<open>generate_hashlink\<close>: the \<open>ValueError\<close> of line 48 and the
  \<open>UnicodeEncodeError\<close> of \<open>str.encode\<close> and \<open>quote\<close> on a surrogate code point.\<close>

datatype gen_exn = Invalid_link_format | UnicodeEncodeError

text \<open>Lines 38 and 66: the pattern \<^verbatim>\<open><[^>]+>\<close>\<close>

definition tag_rx :: rx where
  "tag_rx = cats [Lit (ustr ''<''), Plus (Except 62), Lit (ustr ''>'')]"

text \<open>Line 46: the pattern
  \<^verbatim>\<open>^(https?://.*|ipfs://.*|ipns://.*|magnet:.*|[A-Za-z0-9+/=]{44,})$\<close>; under \<open>re.match\<close>
  the leading \<^verbatim>\<open>^\<close> holds at the start.\<close>

definition link_rx :: rx where
  "link_rx = cats
     [Grp (Alt (cats [Lit (ustr ''http''), Opt (Lit (ustr ''s'')), Lit (ustr ''://''), Star Dot])
          (Alt (cats [Lit (ustr ''ipfs://''), Star Dot])
          (Alt (cats [Lit (ustr ''ipns://''), Star Dot])
          (Alt (cats [Lit (ustr ''magnet:''), Star Dot])
               (AtLeast 44 Base64Chars))))),
      Eos]"

definition sanitize :: "pvtppr_input \<Rightarrow> pvtppr_input" where
  "sanitize self =
     (let self1 = (if \<not> allow_html self \<and> is_substring (ustr ''<'') (input_value self)
                   then self\<lparr>input_value := re_sub_empty tag_rx (input_value self)\<rparr>
                   else self)
      in if \<not> allow_links self1
            \<and> list_ex (\<lambda>x. strip_prefix x (input_value self1) \<noteq> None)
                 [ustr ''http'', ustr ''ipfs'', ustr ''magnet'', ustr ''base64'']
         then self1\<lparr>input_value := []\<rparr>
         else self1)"

definition validate :: "pvtppr_input \<Rightarrow> gen_exn + pvtppr_input" where
  "validate self =
     (let self1 = sanitize self
      in if input_value self1 \<noteq> [] \<and> allow_links self1
            \<and> re_match link_rx (input_value self1) = None
         then Inl Invalid_link_format
         else Inr self1)"

text \<open>\<open>TitleTextInput.render\<close>\<close>

definition title_render :: "pvtppr_input \<Rightarrow> pystr \<times> pvtppr_input" where
  "title_render self =
     (if input_value self \<noteq> []
      then (let self1 = sanitize self
            in (ustr ''<h1>'' @ input_value self1 @ ustr ''</h1>'', self1))
      else (ustr ''<h1>'' @ placeholder self @ ustr ''</h1>'', self))"

text \<open>\<open>text.split()\<close>: the maximal runs of characters that are not white space.\<close>

fun split_ws_from :: "pystr \<Rightarrow> pystr \<Rightarrow> pystr list" where
  "split_ws_from cur [] = (if cur = [] then [] else [cur])"
| "split_ws_from cur (c # cs) =
     (if is_space c
      then (if cur = [] then split_ws_from [] cs else cur # split_ws_from [] cs)
      else split_ws_from (cur @ [c]) cs)"

definition py_split_ws :: "pystr \<Rightarrow> pystr list" where
  "py_split_ws s = split_ws_from [] s"

text \<open>\<open>round(a / b)\<close> for natural numbers: the quotient rounded to the nearest integer,
  a tie to the even one (the float quotient is exact enough for this below \<open>2\<^sup>5\<^sup>3\<close>).\<close>

definition round_div :: "nat \<Rightarrow> nat \<Rightarrow> nat" where
  "round_div a b =
     (if 2 * (a mod b) < b then a div b
      else if b < 2 * (a mod b) then a div b + 1
      else if even (a div b) then a div b
      else a div b + 1)"

text \<open>\<open>str(n)\<close> of a natural number, as an f-string inserts it.\<close>

fun str_nat :: "nat \<Rightarrow> pystr" where
  "str_nat n = (if n < 10 then [48 + n] else str_nat (n div 10) @ [48 + n mod 10])"

text \<open>\<open>BodyTextField.count_stats\<close>: the numbers of characters and words and the reading
  time, with the object after its \<open>sanitize\<close>.\<close>

definition count_stats :: "pvtppr_input \<Rightarrow> (nat \<times> nat \<times> nat) \<times> pvtppr_input" where
  "count_stats self =
     (let self1 = sanitize self;
          text = re_sub_empty tag_rx (input_value self1);
          chars = length text;
          words = length (py_split_ws text);
          reading_time = round_div chars 200
      in ((chars, words, reading_time), self1))"

text \<open>\<open>BodyTextField.render\<close>\<close>

definition body_render :: "pvtppr_input \<Rightarrow> pystr \<times> pvtppr_input" where
  "body_render self =
     (case count_stats self of
        ((chars, words, reading_time), self1) \<Rightarrow>
          (let self2 = sanitize self1
           in ([10] @ ustr ''        <div>'' @ input_value self2 @ ustr ''</div>'' @ [10]
               @ ustr ''        <div>Chars: '' @ str_nat chars @ ustr '' | Words: ''
               @ str_nat words @ ustr '' | Reading Time: '' @ str_nat reading_time
               @ ustr '' min</div>'' @ [10] @ ustr ''        '',
               self2)))"

text \<open>\<open>LinkInput.render\<close>\<close>

definition link_render :: "pvtppr_input \<Rightarrow> gen_exn + pystr \<times> pvtppr_input" where
  \<open>link_render self =
     (case validate self of
        Inl e \<Rightarrow> Inl e
      | Inr self1 \<Rightarrow>
          (if input_value self1 \<noteq> []
           then (let self2 = sanitize self1
                 in Inr (ustr ''<img src="'' @ input_value self2
                         @ ustr ''" alt="Embedded Link" />'', self2))
           else Inr ([], self1)))\<close>

subsection \<open>The template (lines 89--103)\<close>

text \<open>
  \<open>pvtppr_template.render\<close>: Jinja2 without autoescaping inserts the values as they are,
  keeps the first newline of the template source and drops its last one.
\<close>

definition pvtppr_template :: "pystr \<Rightarrow> pystr \<Rightarrow> pystr \<Rightarrow> pystr \<Rightarrow> pystr \<Rightarrow> pystr" where
  \<open>pvtppr_template title title_html body_html link_html btc_snapshot =
     [10] @ ustr ''<!DOCTYPE html>'' @ [10]
     @ ustr ''<html>'' @ [10]
     @ ustr ''<head>'' @ [10]
     @ ustr ''    <meta charset="UTF-8">'' @ [10]
     @ ustr ''    <meta name="btc_snapshot" content="'' @ btc_snapshot @ ustr ''">'' @ [10]
     @ ustr ''    <title>'' @ title @ ustr ''</title>'' @ [10]
     @ ustr ''</head>'' @ [10]
     @ ustr ''<body>'' @ [10]
     @ ustr ''    '' @ title_html @ [10]
     @ ustr ''    '' @ body_html @ [10]
     @ ustr ''    '' @ link_html @ [10]
     @ ustr ''</body>'' @ [10]
     @ ustr ''</html>''\<close>

subsection \<open>\<open>urllib.parse.quote(s, safe='')\<close>\<close>

text \<open>The UTF-8 bytes of the string, each written as itself when it is a letter, a digit
  or one of \<^verbatim>\<open>_.-~\<close>, and as \<^verbatim>\<open>%XX\<close> with upper-case hexadecimal digits otherwise.\<close>

definition always_safe :: "nat \<Rightarrow> bool" where
  "always_safe b \<longleftrightarrow>
     (65 \<le> b \<and> b \<le> 90) \<or> (97 \<le> b \<and> b \<le> 122) \<or> (48 \<le> b \<and> b \<le> 57)
     \<or> b = 95 \<or> b = 46 \<or> b = 45 \<or> b = 126"

definition hex_digit :: "nat \<Rightarrow> nat" where
  "hex_digit d = (if d < 10 then 48 + d else 55 + d)"

definition quote_byte :: "nat \<Rightarrow> pystr" where
  "quote_byte b = (if always_safe b then [b] else [37, hex_digit (b div 16), hex_digit (b mod 16)])"

definition quote :: "pystr \<Rightarrow> gen_exn + pystr" where
  "quote s =
     (case utf8_encode s of
        None \<Rightarrow> Inl UnicodeEncodeError
      | Some bs \<Rightarrow> Inr (concat (map (\<lambda>b. quote_byte (unat b)) bs)))"

subsection \<open>\<open>generate_hashlink\<close> (lines 105--125)\<close>

text \<open>
  Lines 106--120: the three inputs are validated and rendered and the template is filled;
  the result is \<open>html_content\<close>, with the title object as the calls have left it. The three
  arguments are taken to be three distinct objects.
\<close>

definition html_content ::
  "pvtppr_input \<Rightarrow> pvtppr_input \<Rightarrow> pvtppr_input \<Rightarrow> pystr \<Rightarrow> gen_exn + pystr \<times> pvtppr_input" where
  "html_content title_input body_input link_input btc_snapshot =
     (case validate title_input of
        Inl e \<Rightarrow> Inl e
      | Inr title1 \<Rightarrow>
     (case validate body_input of
        Inl e \<Rightarrow> Inl e
      | Inr body1 \<Rightarrow>
     (case validate link_input of
        Inl e \<Rightarrow> Inl e
      | Inr link1 \<Rightarrow>
     (case title_render title1 of
        (title_html, title2) \<Rightarrow>
     (case body_render body1 of
        (body_html, body2) \<Rightarrow>
     (case link_render link1 of
        Inl e \<Rightarrow> Inl e
      | Inr (link_html, link2) \<Rightarrow>
          Inr (pvtppr_template (input_value title2) title_html body_html link_html
                 btc_snapshot, title2)))))))"

text \<open>
  Lines 122--125. \<open>lzma_compress\<close> is
  \<open>lzma.compress(data, format=lzma.FORMAT_ALONE, preset=9)\<close>, which the source does not
  determine.
\<close>

definition generate_hashlink ::
  "(byte list \<Rightarrow> byte list) \<Rightarrow> pvtppr_input \<Rightarrow> pvtppr_input \<Rightarrow> pvtppr_input \<Rightarrow> pystr
     \<Rightarrow> gen_exn + pystr" where
  "generate_hashlink lzma_compress title_input body_input link_input btc_snapshot =
     (case html_content title_input body_input link_input btc_snapshot of
        Inl e \<Rightarrow> Inl e
      | Inr (html, title2) \<Rightarrow>
     (case utf8_encode html of
        None \<Rightarrow> Inl UnicodeEncodeError
      | Some raw \<Rightarrow>
     (case quote (if input_value title2 \<noteq> [] then input_value title2 else placeholder title2) of
        Inl e \<Rightarrow> Inl e
      | Inr title_encoded \<Rightarrow>
          Inr (ustr ''https://itty.bitty.site/#'' @ title_encoded @ ustr ''/?''
               @ b64encode (lzma_compress raw)))))"

text \<open>
  A composed document: the title \<^verbatim>\<open>A b\<close>, the body \<^verbatim>\<open><p>hi</p>\<close>, no link and no
  snapshot; the document that \<open>generate_hashlink\<close> renders for them, its LZMA encoding
  (\<open>FORMAT_ALONE\<close>, preset 9), the hashlink, and an LZMA library that knows this one
  document.
\<close>

definition doc_html :: pystr where
  \<open>doc_html =
     [10] @ ustr ''<!DOCTYPE html>'' @ [10]
     @ ustr ''<html>'' @ [10]
     @ ustr ''<head>'' @ [10]
     @ ustr ''    <meta charset="UTF-8">'' @ [10]
     @ ustr ''    <meta name="btc_snapshot" content="">'' @ [10]
     @ ustr ''    <title>A b</title>'' @ [10]
     @ ustr ''</head>'' @ [10]
     @ ustr ''<body>'' @ [10]
     @ ustr ''    <h1>A b</h1>'' @ [10]
     @ ustr ''    '' @ [10]
     @ ustr ''        <div><p>hi</p></div>'' @ [10]
     @ ustr ''        <div>Chars: 2 | Words: 1 | Reading Time: 0 min</div>'' @ [10]
     @ ustr ''        '' @ [10]
     @ ustr ''    '' @ [10]
     @ ustr ''</body>'' @ [10]
     @ ustr ''</html>''\<close>

definition doc_raw :: "byte list" where
  "doc_raw = map of_nat doc_html"

definition doc_lzma :: "byte list" where
  "doc_lzma =
     [93, 0, 0, 0, 4, 255, 255, 255, 255, 255, 255, 255, 255, 0, 5, 15, 252, 132, 158,
      117, 165, 163, 136, 127, 182, 154, 83, 106, 8, 29, 150, 203, 5, 209, 188, 34,
      255, 82, 216, 191, 36, 223, 249, 9, 189, 157, 239, 223, 47, 187, 143, 188, 114,
      139, 64, 249, 221, 88, 8, 205, 225, 149, 194, 93, 85, 67, 255, 24, 194, 49, 93,
      98, 84, 147, 203, 76, 203, 235, 42, 123, 133, 252, 173, 27, 80, 92, 232, 57, 236,
      70, 57, 203, 119, 177, 121, 91, 9, 158, 215, 199, 44, 59, 205, 121, 170, 24, 62,
      60, 108, 112, 80, 160, 76, 124, 213, 135, 139, 66, 41, 187, 56, 40, 55, 70, 90,
      97, 187, 209, 253, 189, 73, 6, 204, 75, 125, 31, 97, 41, 40, 49, 249, 209, 139,
      243, 35, 185, 255, 71, 187, 220, 59, 24, 226, 171, 66, 121, 129, 159, 152, 56,
      193, 232, 207, 219, 233, 209, 225, 34, 139, 14, 115, 180, 137, 80, 36, 69, 35,
      52, 162, 100, 113, 158, 227, 22, 6, 37, 32, 161, 204, 24, 178, 249, 158, 48, 9]"

definition doc_hashlink :: pystr where
  "doc_hashlink =
     ustr ''https://itty.bitty.site/#A%20b/?XQAAAAT//////////wAFD/yEnnWlo4h/tppTaggd''
     @ ustr ''lssF0bwi/1LYvyTf+Qm9ne/fL7uPvHKLQPndWAjN4ZXCXVVD/xjCMV1iVJPLTMvrKnuF/K0b''
     @ ustr ''UFzoOexGOct3sXlbCZ7Xxyw7zXmqGD48bHBQoEx81YeLQim7OCg3Rlphu9H9vUkGzEt9H2Ep''
     @ ustr ''KDH50YvzI7n/R7vcOxjiq0J5gZ+YOMHoz9vp0eEiiw5ztIlQJEUjNKJkcZ7jFgYlIKHMGLL5''
     @ ustr ''njAJ''"

definition lzma_compress_doc :: "byte list \<Rightarrow> byte list" where
  "lzma_compress_doc raw = (if raw = doc_raw then doc_lzma else [])"

definition env_lzma_doc :: env where
  "env_lzma_doc =
     \<lparr>lzma_decompress = (\<lambda>b. if b = doc_lzma then Inr doc_raw else Inl LZMAError),
      execjs_compile = Some ExecjsError,
      execjs_eval = (\<lambda>b. Inl ExecjsError), requests_get = (\<lambda>k url t. Inl ConnectionError)\<rparr>"

section \<open>Strategy 1 is committing\<close>

lemma decode_hashlink_reroute:
  assumes "reroute_match hashlink = Some b64_data"
  shows "decode_hashlink env hashlink =
     (case b64_utf8 b64_data of
        Inr t \<Rightarrow> ([Info_start, Info_reroute_check, Info_reroute_success], Document t v_reroute)
      | Inl e \<Rightarrow> ([Info_start, Info_reroute_check, Error_reroute_invalid e],
                  Failure Invalid_reroute v_reroute))"
  using assms
  by (simp add: decode_hashlink_def local_phases_def reroute_phase_def split: sum.splits)

text \<open>
  C1. When the reroute pattern matches and its payload does not decode (as base64 or,
  after that, as UTF-8), \<open>decode_hashlink\<close> returns the reroute failure with the reroute
  version label, and the log holds nothing of strategies 2 to 4: no padding attempt, no
  JavaScript attempt, no HTTP request.
\<close>

theorem C1_reroute_failure_is_terminal:
  assumes "reroute_match hashlink = Some b64_data"
    and "b64_utf8 b64_data = Inl e"
  shows "snd (decode_hashlink env hashlink) = Failure Invalid_reroute ''PvtPpr v0 (reroute)''
       \<and> fst (decode_hashlink env hashlink) = [Info_start, Info_reroute_check, Error_reroute_invalid e]
       \<and> (\<forall>ev \<in> set (fst (decode_hashlink env hashlink)). phase_of ev \<le> 1)"
  using assms by (simp add: decode_hashlink_reroute v_reroute_def)

lemma reroute_match_bad_payload:
  "reroute_match (ustr ''https://itty.bitty.site/#t/data:text/html;charset=utf-8;base64,a'')
     = Some (ustr ''a'')"
  by (simp add: reroute_match_def reroute_rx_def re_match_def cats_def ustr_def)

lemma b64_utf8_bad_payload: "b64_utf8 (ustr ''a'') = Inl BinasciiError"
  by (simp add: b64_utf8_def b64decode_def ustr_def b64_val_def)

theorem C1_reroute_failure_is_terminal_witness:
  "reroute_match (ustr ''https://itty.bitty.site/#t/data:text/html;charset=utf-8;base64,a'')
     = Some (ustr ''a'')
   \<and> b64_utf8 (ustr ''a'') = Inl BinasciiError
   \<and> decode_hashlink env_offline
        (ustr ''https://itty.bitty.site/#t/data:text/html;charset=utf-8;base64,a'')
      = ([Info_start, Info_reroute_check, Error_reroute_invalid BinasciiError],
         Failure Invalid_reroute ''PvtPpr v0 (reroute)'')"
  using C1_reroute_failure_is_terminal
          [OF reroute_match_bad_payload b64_utf8_bad_payload, of env_offline]
        reroute_match_bad_payload b64_utf8_bad_payload
  by (simp add: prod_eq_iff)

section \<open>The shape of the log\<close>

lemma skip_loop_log:
  "skip_loop env c sk = (ev, f) \<Longrightarrow>
     (\<forall>e \<in> set ev. phase_of e = 2) \<and> length ev \<le> length sk \<and> closes ev f"
proof (induction sk arbitrary: ev f)
  case Nil
  then show ?case by (simp add: closes_def successes_def)
next
  case (Cons k sk)
  show ?case
  proof (cases "lzma_decompress env (drop k c)")
    case (Inr d)
    with Cons.prems show ?thesis
      by (auto simp: closes_def successes_def split: option.splits)
  next
    case (Inl e)
    show ?thesis
    proof (cases "e = LZMAError")
      case False
      with Inl Cons.prems show ?thesis by (auto simp: closes_def successes_def)
    next
      case True
      obtain ev' f' where r: "skip_loop env c sk = (ev', f')" by (cases "skip_loop env c sk")
      from Cons.IH[OF r] have ih: "(\<forall>e \<in> set ev'. phase_of e = 2)" "length ev' \<le> length sk" "closes ev' f'" by auto
      from Cons.prems Inl True r have e: "ev = Error_lzma k # ev'" "f = f'" by auto
      show ?thesis using ih e
        by (auto simp: closes_def successes_def split: flow.splits result.splits)
    qed
  qed
qed

lemma candidate_log:
  assumes "(case b64decode s of Inl e \<Rightarrow> ([], Raise e)
            | Inr compressed \<Rightarrow> skip_loop env compressed header_lengths) = (ev, f)"
  shows "(\<forall>e \<in> set ev. phase_of e = 2) \<and> length ev \<le> 4 \<and> closes ev f"
proof (cases "b64decode s")
  case (Inl e)
  with assms show ?thesis by (auto simp: closes_def successes_def)
next
  case (Inr c)
  with assms have "skip_loop env c header_lengths = (ev, f)" by simp
  from skip_loop_log[OF this] show ?thesis by (simp add: header_lengths_def)
qed

lemma closes_Fallthrough: "closes ev Fallthrough \<longleftrightarrow> successes ev = 0"
  by (simp add: closes_def)

lemma closes_prepend:
  "successes pre = 0 \<Longrightarrow> closes ev f \<Longrightarrow> closes (pre @ ev) f"
  by (auto simp: closes_def successes_def split: flow.splits result.splits)


lemma padding_loop_log:
  "padding_loop env b ps = (ev, f) \<Longrightarrow>
     (\<forall>e \<in> set ev. phase_of e = 2) \<and> length ev \<le> 6 * length ps \<and> closes ev f"
proof (induction ps arbitrary: ev f)
  case Nil
  then show ?case by (simp add: closes_def successes_def)
next
  case (Cons p ps)
  obtain ev1 f1 where c: "(case b64decode (b @ replicate p 61) of Inl e \<Rightarrow> ([], Raise e)
            | Inr compressed \<Rightarrow> skip_loop env compressed header_lengths) = (ev1, f1)"
    by (cases "(case b64decode (b @ replicate p 61) of Inl e \<Rightarrow> ([], Raise e)
            | Inr compressed \<Rightarrow> skip_loop env compressed header_lengths)")
  from candidate_log[OF c]
  have c1: "\<forall>e \<in> set ev1. phase_of e = 2" "length ev1 \<le> 4" "closes ev1 f1" by auto
  obtain ev2 f2 where r: "padding_loop env b ps = (ev2, f2)" by (cases "padding_loop env b ps")
  from Cons.IH[OF r]
  have ih: "\<forall>e \<in> set ev2. phase_of e = 2" "length ev2 \<le> 6 * length ps" "closes ev2 f2" by auto
  show ?case
  proof (cases f1)
    case (Return res)
    with Cons.prems c have e: "ev = Info_padding_attempt p # ev1" "f = Return res" by auto
    have "closes ([Info_padding_attempt p] @ ev1) f1"
      by (rule closes_prepend) (simp_all add: successes_def c1)
    with e c1 Return show ?thesis by simp
  next
    case Fallthrough
    with Cons.prems c r have e: "ev = (Info_padding_attempt p # ev1) @ ev2" "f = f2" by auto
    have "successes (Info_padding_attempt p # ev1) = 0"
      using c1(3) Fallthrough by (simp add: closes_def successes_def)
    from closes_prepend[OF this ih(3)] e c1 ih show ?thesis by auto
  next
    case (Raise x)
    show ?thesis
    proof (cases "x = BinasciiError")
      case False
      with Raise Cons.prems c have e: "ev = Info_padding_attempt p # ev1" "f = Raise x" by auto
      have "closes ([Info_padding_attempt p] @ ev1) f1"
        by (rule closes_prepend) (simp_all add: successes_def c1)
      with e c1 Raise show ?thesis by simp
    next
      case True
      with Raise Cons.prems c r
      have e: "ev = (Info_padding_attempt p # ev1 @ [Error_padding_failed p]) @ ev2" "f = f2" by auto
      have "successes ev1 = 0" using c1(3) Raise True by (simp add: closes_def)
      then have "successes (Info_padding_attempt p # ev1 @ [Error_padding_failed p]) = 0"
        by (simp add: successes_def)
      from closes_prepend[OF this ih(3)] e c1 ih show ?thesis by auto
    qed
  qed
qed

lemma all_phase_sorted:
  "\<forall>e \<in> set ev. phase_of e = p \<Longrightarrow> sorted (map phase_of ev)"
  by (induction ev) auto

lemma standard_phase_log:
  assumes "standard_phase env sm = (ev, f)"
  shows "(\<forall>e \<in> set ev. phase_of e = 2) \<and> length ev \<le> 25 \<and> closes ev f"
proof (cases sm)
  case None
  with assms show ?thesis by (simp add: standard_phase_def closes_def successes_def)
next
  case (Some tb)
  obtain title b where tb: "tb = (title, b)" by (cases tb)
  obtain ev1 f1 where r: "padding_loop env b [0, 1, 2, 3] = (ev1, f1)"
    by (cases "padding_loop env b [0, 1, 2, 3]")
  from padding_loop_log[OF r]
  have l: "\<forall>e \<in> set ev1. phase_of e = 2" "length ev1 \<le> 24" "closes ev1 f1" by auto
  from assms Some tb r have e: "ev = [Info_standard_check] @ ev1" "f = f1"
    by (auto simp: standard_phase_def)
  have "closes ([Info_standard_check] @ ev1) f1"
    by (rule closes_prepend) (simp_all add: successes_def l)
  with e l show ?thesis by simp
qed

lemma js_decode_log:
  assumes "js_decode env s = (ev, r)"
  shows "(\<forall>e \<in> set ev. phase_of e = 3) \<and> length ev \<le> 1
       \<and> (case r of Inr (Some t) \<Rightarrow> ev = [Info_js_success]
           | Inr None \<Rightarrow> ev = []
           | Inl e \<Rightarrow> ev = [] \<or> (e = UnicodeDecodeError \<and> ev = [Info_js_success]))"
  using assms
  by (auto simp: js_decode_def split: sum.splits js_value.splits option.splits)

lemma js_try_log:
  assumes "js_try env h sm = (ev, r)"
  shows "(\<forall>e \<in> set ev. phase_of e = 3) \<and> length ev \<le> 1
       \<and> (case r of Inr (Some t) \<Rightarrow> ev = [Info_js_success]
           | Inr None \<Rightarrow> ev = []
           | Inl e \<Rightarrow> ev = [] \<or> (e = UnicodeDecodeError \<and> ev = [Info_js_success]))"
proof (cases "execjs_compile env")
  case (Some e)
  with assms show ?thesis by (auto simp: js_try_def)
next
  case None
  show ?thesis
  proof (cases "js_payload h sm")
    case (Inl e)
    with None assms show ?thesis by (auto simp: js_try_def)
  next
    case (Inr b)
    with None assms have "js_decode env (pad_to_quad b) = (ev, r)" by (simp add: js_try_def)
    from js_decode_log[OF this] show ?thesis .
  qed
qed

lemma js_phase_log:
  assumes "js_phase env h sm = (ev, f)"
  shows "(\<forall>e \<in> set ev. phase_of e = 3) \<and> length ev \<le> 3 \<and> closes ev f"
proof -
  obtain ev1 r where t: "js_try env h sm = (ev1, r)" by (cases "js_try env h sm")
  from js_try_log[OF t] assms t show ?thesis
    by (auto simp: js_phase_def closes_def successes_def
             split: sum.splits option.splits if_splits)
qed

lemma fetch_retry_log:
  assumes "fetch_retry env h = (ev, r)"
  shows "(\<forall>e \<in> set ev. phase_of e = 4) \<and> length ev \<le> 4
       \<and> (case r of
             Inr (Some (Document t v)) \<Rightarrow> ev \<noteq> [] \<and> is_success (last ev) \<and> successes ev = 1
           | Inr (Some (Failure m v)) \<Rightarrow> False
           | _ \<Rightarrow> successes ev = 0)"
proof (cases "retry_url h")
  case (Inl e)
  with assms show ?thesis by (auto simp: fetch_retry_def successes_def)
next
  case (Inr u)
  show ?thesis
  proof (cases "requests_get env 1 u 10")
    case (Inl e)
    with Inr assms show ?thesis by (auto simp: fetch_retry_def successes_def)
  next
    case r2: (Inr resp)
    show ?thesis
    proof (cases "status_code resp = 200")
      case False
      with Inr r2 assms show ?thesis by (auto simp: fetch_retry_def successes_def)
    next
      case True
      obtain html toast where a: "accept_toast (resp_text resp) = (html, toast)"
        by (cases "accept_toast (resp_text resp)")
      show ?thesis
      proof (cases "body_search html")
        case None
        with Inr r2 True a assms show ?thesis by (auto simp: fetch_retry_def successes_def)
      next
        case (Some content)
        with Inr r2 True a assms show ?thesis by (auto simp: fetch_retry_def successes_def)
      qed
    qed
  qed
qed

lemma extract_initial_log:
  assumes "extract_initial html = (ev, r)"
  shows "(\<forall>e \<in> set ev. phase_of e = 4) \<and> length ev = 1
       \<and> (case r of Document t v \<Rightarrow> ev = [Info_fetch_success]
           | Failure m v \<Rightarrow> successes ev = 0)"
  using assms by (auto simp: extract_initial_def successes_def split: option.splits)

lemma successes_append: "successes (xs @ ys) = successes xs + successes ys"
  by (simp add: successes_def)

lemma fetch_body_log:
  assumes "fetch_body env h = (ev, r)"
  shows "(\<forall>e \<in> set ev. phase_of e = 4) \<and> length ev \<le> 8
       \<and> (case r of
             Inr (Document t v) \<Rightarrow> ev \<noteq> [] \<and> is_success (last ev) \<and> successes ev = 1
           | _ \<Rightarrow> successes ev = 0)"
proof (cases "requests_get env 0 h 10")
  case (Inl e)
  with assms show ?thesis by (auto simp: fetch_body_def successes_def)
next
  case (Inr resp)
  show ?thesis
  proof (cases "status_code resp = 200")
    case False
    with Inr assms show ?thesis by (auto simp: fetch_body_def successes_def)
  next
    case True
    obtain html toast where a: "accept_toast (resp_text resp) = (html, toast)"
      by (cases "accept_toast (resp_text resp)")
    define pre where "pre = [Http_get h 10, Info_fetch_received]
                              @ (if toast then [Info_toast_accepted] else [])"
    have pre: "\<forall>e \<in> set pre. phase_of e = 4" "length pre \<le> 3" "successes pre = 0" "pre \<noteq> []"
      by (auto simp: pre_def successes_def)
    obtain ev1 r1 where q: "(if re_search redirect_rx html \<noteq> None
                         then fetch_retry env h else ([], Inr None)) = (ev1, r1)"
      by (cases "(if re_search redirect_rx html \<noteq> None
                         then fetch_retry env h else ([], Inr None))")
    have l1: "(\<forall>e \<in> set ev1. phase_of e = 4) \<and> length ev1 \<le> 4
       \<and> (case r1 of
             Inr (Some (Document t v)) \<Rightarrow> ev1 \<noteq> [] \<and> is_success (last ev1) \<and> successes ev1 = 1
           | Inr (Some (Failure m v)) \<Rightarrow> False
           | _ \<Rightarrow> successes ev1 = 0)"
    proof (cases "re_search redirect_rx html \<noteq> None")
      case True
      with q have "fetch_retry env h = (ev1, r1)" by simp
      from fetch_retry_log[OF this] show ?thesis .
    next
      case False
      with q show ?thesis by (auto simp: successes_def)
    qed
    show ?thesis
    proof (cases r1)
      case (Inl e)
      with Inr True a q assms have e: "ev = pre @ ev1" "r = Inl e"
        by (auto simp: fetch_body_def pre_def)
      with l1 Inl pre show ?thesis by (auto simp: successes_append)
    next
      case r1: (Inr o1)
      show ?thesis
      proof (cases o1)
        case (Some res)
        with r1 Inr True a q assms have e: "ev = pre @ ev1" "r = Inr res"
          by (auto simp: fetch_body_def pre_def)
        with l1 r1 Some pre show ?thesis
          by (cases res) (auto simp: successes_append)
      next
        case None
        obtain ev2 res where x: "extract_initial html = (ev2, res)"
          by (cases "extract_initial html")
        from None r1 Inr True a q x assms have e: "ev = pre @ ev1 @ ev2" "r = Inr res"
          by (auto simp: fetch_body_def pre_def)
        from extract_initial_log[OF x] l1 r1 None pre e show ?thesis
          by (cases res) (auto simp: successes_append successes_def)
      qed
    qed
  qed
qed

lemma fetch_phase_log:
  assumes "fetch_phase env h = (ev, r)"
  shows "(\<forall>e \<in> set ev. phase_of e = 4) \<and> length ev \<le> 10 \<and> closes ev (Return r)"
proof -
  obtain ev1 r1 where b: "fetch_body env h = (ev1, r1)" by (cases "fetch_body env h")
  from fetch_body_log[OF b]
  have l: "\<forall>e \<in> set ev1. phase_of e = 4" "length ev1 \<le> 8"
    "(case r1 of
             Inr (Document t v) \<Rightarrow> ev1 \<noteq> [] \<and> is_success (last ev1) \<and> successes ev1 = 1
           | _ \<Rightarrow> successes ev1 = 0)" by auto
  show ?thesis
  proof (cases r1)
    case (Inl e)
    with b assms l show ?thesis
      by (auto simp: fetch_phase_def closes_def successes_def split: if_splits)
  next
    case (Inr res)
    with b assms have e: "ev = Info_fetch_attempt # ev1" "r = res"
      by (auto simp: fetch_phase_def)
    with l Inr show ?thesis
      by (cases res) (auto simp: closes_def successes_def)
  qed
qed

lemma reroute_phase_log:
  assumes "reroute_phase h = Some (ev, r)"
  shows "(\<forall>e \<in> set ev. phase_of e = 1) \<and> length ev = 2 \<and> closes ev (Return r)"
  using assms
  by (auto simp: reroute_phase_def closes_def successes_def split: option.splits sum.splits)

lemma sorted_phases_append:
  assumes "\<forall>e \<in> set xs. phase_of e = p" and "\<forall>e \<in> set ys. phase_of e = q" and "p \<le> q"
  shows "sorted (map phase_of (xs @ ys))"
proof -
  have "sorted (map phase_of xs)" "sorted (map phase_of ys)"
    using assms all_phase_sorted by blast+
  with assms show ?thesis by (auto simp: sorted_append)
qed

lemma local_phases_log:
  assumes "local_phases env h = (ev, out)"
  shows "sorted (map phase_of ev) \<and> (\<forall>e \<in> set ev. 1 \<le> phase_of e) \<and> length ev \<le> 29
       \<and> (case out of
             None \<Rightarrow> successes ev = 0 \<and> (\<forall>e \<in> set ev. phase_of e \<le> 3)
           | Some r \<Rightarrow> closes ev (Return r))"
proof (cases "reroute_phase h")
  case (Some p)
  obtain ev1 r where p: "p = (ev1, r)" by (cases p)
  from reroute_phase_log[OF Some[unfolded p]]
  have l1: "\<forall>e \<in> set ev1. phase_of e = 1" "length ev1 = 2" "closes ev1 (Return r)" by auto
  from all_phase_sorted[OF l1(1)] have "sorted (map phase_of ev1)" .
  with l1 Some p assms show ?thesis
    by (auto simp: local_phases_def)
next
  case None
  obtain ev2 f2 where s: "standard_phase env (standard_match h) = (ev2, f2)"
    by (cases "standard_phase env (standard_match h)")
  from standard_phase_log[OF s]
  have l2: "\<forall>e \<in> set ev2. phase_of e = 2" "length ev2 \<le> 25" "closes ev2 f2" by auto
  show ?thesis
  proof (cases f2)
    case (Return r)
    with None s assms have "ev = ev2" "out = Some r" by (auto simp: local_phases_def)
    with l2 Return all_phase_sorted[OF l2(1)] show ?thesis by auto
  next
    case (Raise x)
    with None s assms have e: "ev = ev2 @ [Error_unexpected x]"
      "out = Some (Failure (Unexpected x) v_standard)" by (auto simp: local_phases_def)
    have "sorted (map phase_of (ev2 @ [Error_unexpected x]))"
      by (rule sorted_phases_append[where p=2 and q=5]) (simp_all add: l2)
    with e l2 Raise show ?thesis
      by (auto simp: closes_def successes_def)
  next
    case Fallthrough
    obtain ev3 f3 where j: "js_phase env h (standard_match h) = (ev3, f3)"
      by (cases "js_phase env h (standard_match h)")
    from js_phase_log[OF j]
    have l3: "\<forall>e \<in> set ev3. phase_of e = 3" "length ev3 \<le> 3" "closes ev3 f3" by auto
    have s23: "sorted (map phase_of (ev2 @ ev3))"
      by (rule sorted_phases_append[where p=2 and q=3]) (simp_all add: l2 l3)
    have z2: "successes ev2 = 0" using l2(3) Fallthrough by (simp add: closes_def)
    have c23: "closes (ev2 @ ev3) f3" by (rule closes_prepend[OF z2 l3(3)])
    show ?thesis
    proof (cases f3)
      case (Return r)
      with None s Fallthrough j assms have "ev = ev2 @ ev3" "out = Some r"
        by (auto simp: local_phases_def)
      with s23 c23 l2 l3 Return show ?thesis by auto
    next
      case (Raise x)
      with None s Fallthrough j assms have e: "ev = ev2 @ ev3 @ [Error_unexpected x]"
        "out = Some (Failure (Unexpected x) v_js)" by (auto simp: local_phases_def)
      have "sorted (map phase_of (ev2 @ ev3 @ [Error_unexpected x]))"
        using s23 l2 l3 by (auto simp: sorted_append)
      moreover have "successes (ev2 @ ev3 @ [Error_unexpected x]) \<le> 1"
        using c23 Raise by (auto simp: closes_def successes_def)
      ultimately show ?thesis using e l2 l3 by (auto simp: closes_def)
    next
      case f3: Fallthrough
      with None s Fallthrough j assms have e: "ev = ev2 @ ev3" "out = None"
        by (auto simp: local_phases_def)
      with s23 c23 l2 l3 f3 show ?thesis by (auto simp: closes_def)
    qed
  qed
qed

text \<open>
  C3. For every hashlink and every behaviour of the libraries, \<open>decode_hashlink\<close> returns
  one pair, which is either a document with its version label or a failure (the exceptions
  that leave a strategy are turned into a failure by the handler of line 257). The log it
  wrote is bounded (at most 40 entries) and ordered by strategy, holds at most one success
  entry, and when a document is returned that entry is the last one: nothing runs after
  the first success.
\<close>

theorem C3_one_result_after_ordered_attempts:
  "sorted (map phase_of (fst (decode_hashlink env hashlink)))
   \<and> length (fst (decode_hashlink env hashlink)) \<le> 40
   \<and> successes (fst (decode_hashlink env hashlink)) \<le> 1
   \<and> ((\<exists>t v. snd (decode_hashlink env hashlink) = Document t v)
        \<noteq> (\<exists>m v. snd (decode_hashlink env hashlink) = Failure m v))
   \<and> ((\<exists>t v. snd (decode_hashlink env hashlink) = Document t v)
        \<longrightarrow> is_success (last (fst (decode_hashlink env hashlink))))"
proof -
  obtain ev out where l: "local_phases env hashlink = (ev, out)"
    by (cases "local_phases env hashlink")
  from local_phases_log[OF l]
  have ll: "sorted (map phase_of ev)" "\<forall>e \<in> set ev. 1 \<le> phase_of e" "length ev \<le> 29"
    "(case out of
             None \<Rightarrow> successes ev = 0 \<and> (\<forall>e \<in> set ev. phase_of e \<le> 3)
           | Some r \<Rightarrow> closes ev (Return r))" by auto
  have excl: "\<And>r. (\<exists>t v. r = Document t v) \<noteq> (\<exists>m v. r = Failure m v)"
  proof -
    fix r show "(\<exists>t v. r = Document t v) \<noteq> (\<exists>m v. r = Failure m v)" by (cases r) auto
  qed
  show ?thesis
  proof (cases out)
    case (Some r)
    with l have d: "decode_hashlink env hashlink = (Info_start # ev, r)"
      by (simp add: decode_hashlink_def)
    from ll Some have c: "closes ev (Return r)" by simp
    have "sorted (map phase_of (Info_start # ev))" using ll by auto
    moreover have "successes (Info_start # ev) \<le> 1"
      using c by (cases r) (auto simp: closes_def successes_def)
    moreover have "(\<exists>t v. r = Document t v) \<longrightarrow> is_success (last (Info_start # ev))"
      using c by (cases r) (auto simp: closes_def)
    ultimately show ?thesis using d ll excl[of r] by simp
  next
    case None
    obtain ev4 r where f: "fetch_phase env hashlink = (ev4, r)"
      by (cases "fetch_phase env hashlink")
    from fetch_phase_log[OF f]
    have l4: "\<forall>e \<in> set ev4. phase_of e = 4" "length ev4 \<le> 10" "closes ev4 (Return r)" by auto
    from None l f have d: "decode_hashlink env hashlink = (Info_start # ev @ ev4, r)"
      by (simp add: decode_hashlink_def)
    from ll None have z: "successes ev = 0" "\<forall>e \<in> set ev. phase_of e \<le> 3" by auto
    have "sorted (map phase_of (Info_start # ev @ ev4))"
      using ll z l4 all_phase_sorted[OF l4(1)] by (auto simp: sorted_append)
    moreover have c: "closes (Info_start # ev @ ev4) (Return r)"
      using closes_prepend[of "Info_start # ev" ev4 "Return r"] z l4
      by (simp add: successes_def)
    moreover have "successes (Info_start # ev @ ev4) \<le> 1"
      using c by (cases r) (auto simp: closes_def)
    moreover have "(\<exists>t v. r = Document t v) \<longrightarrow> is_success (last (Info_start # ev @ ev4))"
      using c by (cases r) (auto simp: closes_def)
    ultimately show ?thesis using d ll l4 excl[of r] by simp
  qed
qed

lemma reroute_match_hello:
  "reroute_match (ustr ''https://itty.bitty.site/#t/data:text/html;charset=utf-8;base64,aGVsbG8='')
     = Some (ustr ''aGVsbG8='')"
  by (simp add: reroute_match_def reroute_rx_def re_match_def cats_def ustr_def)

lemma b64_utf8_hello: "b64_utf8 (ustr ''aGVsbG8='') = Inr (ustr ''hello'')"
  by (simp add: b64_utf8_def b64decode_def ustr_def b64_val_def utf8_decode_def)

lemma decode_hashlink_hello:
  "decode_hashlink env_offline
     (ustr ''https://itty.bitty.site/#t/data:text/html;charset=utf-8;base64,aGVsbG8='')
   = ([Info_start, Info_reroute_check, Info_reroute_success],
      Document (ustr ''hello'') ''PvtPpr v0 (reroute)'')"
  by (simp add: decode_hashlink_reroute[OF reroute_match_hello] b64_utf8_hello v_reroute_def)

theorem C3_one_result_after_ordered_attempts_witness:
  "snd (decode_hashlink env_offline
          (ustr ''https://itty.bitty.site/#t/data:text/html;charset=utf-8;base64,aGVsbG8=''))
     = Document (ustr ''hello'') ''PvtPpr v0 (reroute)''
   \<and> is_success (last (fst (decode_hashlink env_offline
          (ustr ''https://itty.bitty.site/#t/data:text/html;charset=utf-8;base64,aGVsbG8=''))))
   \<and> sorted (map phase_of (fst (decode_hashlink env_offline
          (ustr ''https://itty.bitty.site/#t/data:text/html;charset=utf-8;base64,aGVsbG8=''))))"
  using C3_one_result_after_ordered_attempts [of env_offline
          "ustr ''https://itty.bitty.site/#t/data:text/html;charset=utf-8;base64,aGVsbG8=''"]
  by (simp add: decode_hashlink_hello)

section \<open>Which failures are swallowed\<close>

text \<open>A run in which the first candidate of strategy 2 decompresses to bytes that are not
  UTF-8.\<close>

lemma reroute_match_ff:
  "reroute_match (ustr ''https://itty.bitty.site/#t/?XQAAAAT//////////wB/wfv////gAAAA'') = None"
  by (simp add: reroute_match_def reroute_rx_def re_match_def cats_def ustr_def)

lemma standard_match_ff:
  "standard_match (ustr ''https://itty.bitty.site/#t/?XQAAAAT//////////wB/wfv////gAAAA'')
     = Some (ustr ''t'', ustr ''XQAAAAT//////////wB/wfv////gAAAA'')"
  by (simp add: standard_match_def standard_rx_def re_match_def cats_def ustr_def)

lemma b64decode_ff: "b64decode (ustr ''XQAAAAT//////////wB/wfv////gAAAA'') = Inr lzma_of_ff"
  by (simp add: b64decode_def ustr_def b64_val_def lzma_of_ff_def)

lemma standard_phase_ff:
  "standard_phase env_lzma_ff (Some (ustr ''t'', ustr ''XQAAAAT//////////wB/wfv////gAAAA''))
     = ([Info_standard_check, Info_padding_attempt 0, Info_padding_success],
        Raise UnicodeDecodeError)"
  by (simp add: standard_phase_def b64decode_ff header_lengths_def env_lzma_ff_def
                utf8_decode_def)

lemma decode_hashlink_ff:
  "decode_hashlink env_lzma_ff
     (ustr ''https://itty.bitty.site/#t/?XQAAAAT//////////wB/wfv////gAAAA'')
   = ([Info_start, Info_standard_check, Info_padding_attempt 0, Info_padding_success,
       Error_unexpected UnicodeDecodeError],
      Failure (Unexpected UnicodeDecodeError) ''IBS v1 / PvtPpr v1'')"
  by (simp add: decode_hashlink_def local_phases_def reroute_phase_def reroute_match_ff
                standard_match_ff standard_phase_ff v_standard_def)

lemma a2b_base64_error:
  "a2b_base64 s q l p out = Inl e \<Longrightarrow> e = BinasciiError"
  by (induction s q l p out rule: a2b_base64.induct)
     (auto split: if_splits option.splits)

lemma b64decode_error:
  "b64decode s = Inl e \<Longrightarrow> e = ValueError \<or> e = BinasciiError"
  by (auto simp: b64decode_def split: if_splits dest: a2b_base64_error)

lemma skip_loop_raise:
  "skip_loop env c sk = (ev, Raise e) \<Longrightarrow> e \<noteq> LZMAError"
proof (induction sk arbitrary: ev)
  case Nil
  then show ?case by simp
next
  case (Cons k sk)
  then show ?case
    by (cases "skip_loop env c sk")
       (auto split: sum.splits option.splits if_splits)
qed

lemma candidate_raise:
  assumes "(case b64decode s of Inl e \<Rightarrow> ([], Raise e)
            | Inr compressed \<Rightarrow> skip_loop env compressed header_lengths) = (ev, Raise e)"
  shows "e \<noteq> LZMAError"
proof (cases "b64decode s")
  case (Inl x)
  with assms b64decode_error[OF Inl] show ?thesis by auto
next
  case (Inr c)
  with assms show ?thesis by (auto dest: skip_loop_raise)
qed

lemma padding_loop_raise:
  "padding_loop env b ps = (ev, Raise e) \<Longrightarrow> e \<noteq> BinasciiError \<and> e \<noteq> LZMAError"
proof (induction ps arbitrary: ev)
  case Nil
  then show ?case by simp
next
  case (Cons p ps)
  obtain ev1 f1 where c: "(case b64decode (b @ replicate p 61) of Inl e \<Rightarrow> ([], Raise e)
            | Inr compressed \<Rightarrow> skip_loop env compressed header_lengths) = (ev1, f1)"
    by (cases "(case b64decode (b @ replicate p 61) of Inl e \<Rightarrow> ([], Raise e)
            | Inr compressed \<Rightarrow> skip_loop env compressed header_lengths)")
  obtain ev2 f2 where r: "padding_loop env b ps = (ev2, f2)" by (cases "padding_loop env b ps")
  show ?case
  proof (cases f1)
    case (Return res)
    with Cons.prems c show ?thesis by auto
  next
    case Fallthrough
    with Cons.prems c r have "f2 = Raise e" by auto
    with r Cons.IH show ?thesis by blast
  next
    case (Raise x)
    show ?thesis
    proof (cases "x = BinasciiError")
      case True
      with Raise Cons.prems c r have "f2 = Raise e" by auto
      with r Cons.IH show ?thesis by blast
    next
      case False
      with Raise Cons.prems c have "e = x" by auto
      moreover from c Raise have "x \<noteq> LZMAError" by (auto dest: candidate_raise)
      ultimately show ?thesis using False by simp
    qed
  qed
qed

lemma standard_phase_raise:
  assumes "standard_phase env sm = (ev, Raise e)"
  shows "e \<noteq> BinasciiError \<and> e \<noteq> LZMAError"
proof (cases sm)
  case None
  with assms show ?thesis by (simp add: standard_phase_def)
next
  case (Some tb)
  obtain title b where tb: "tb = (title, b)" by (cases tb)
  obtain ev1 f1 where r: "padding_loop env b [0, 1, 2, 3] = (ev1, f1)"
    by (cases "padding_loop env b [0, 1, 2, 3]")
  from assms Some tb r have "f1 = Raise e" by (simp add: standard_phase_def del: padding_loop.simps)
  with r padding_loop_raise show ?thesis by blast
qed

lemma js_phase_raise:
  "js_phase env h sm = (ev, Raise e) \<Longrightarrow> e \<noteq> ExecjsError \<and> e \<noteq> BinasciiError"
  by (cases "js_try env h sm")
     (auto simp: js_phase_def split: sum.splits option.splits if_splits)

lemma js_phase_starts:
  "js_phase env h sm = (ev, f) \<Longrightarrow> Info_js_attempt \<in> set ev"
  by (cases "js_try env h sm")
     (auto simp: js_phase_def split: sum.splits option.splits if_splits)

lemma fetch_phase_starts:
  "fetch_phase env h = (ev, r) \<Longrightarrow> Info_fetch_attempt \<in> set ev"
  by (cases "fetch_body env h")
     (auto simp: fetch_phase_def split: sum.splits if_splits)

theorem C5_unicode_error_is_terminal_counterexample:
  "snd (decode_hashlink env_lzma_ff
          (ustr ''https://itty.bitty.site/#t/?XQAAAAT//////////wB/wfv////gAAAA''))
     = Failure (Unexpected UnicodeDecodeError) ''IBS v1 / PvtPpr v1''
   \<and> Info_js_attempt \<notin> set (fst (decode_hashlink env_lzma_ff
          (ustr ''https://itty.bitty.site/#t/?XQAAAAT//////////wB/wfv////gAAAA'')))"
  by (simp add: decode_hashlink_ff)

section \<open>The order of the sixteen candidates\<close>

lemma combinations_list:
  "combinations =
     [(0, 0), (0, 5), (0, 9), (0, 13), (1, 0), (1, 5), (1, 9), (1, 13),
      (2, 0), (2, 5), (2, 9), (2, 13), (3, 0), (3, 5), (3, 9), (3, 13)]"
  by (simp add: combinations_def)

lemma find_append_none:
  "\<forall>x \<in> set xs. \<not> P x \<Longrightarrow> find P (xs @ ys) = find P ys"
  by (induction xs) auto

lemma find_append_some:
  "find P xs = Some x \<Longrightarrow> find P (xs @ ys) = Some x"
  by (induction xs) (auto split: if_splits)

lemma skip_loop_find:
  "snd (skip_loop env c ks) =
     (case find (\<lambda>k. lzma_decompress env (drop k c) \<noteq> Inl LZMAError) ks of
        None \<Rightarrow> Fallthrough
      | Some k \<Rightarrow> settle (lzma_decompress env (drop k c)))"
proof (induction ks)
  case Nil
  show ?case by simp
next
  case (Cons k ks)
  show ?case
  proof (cases "lzma_decompress env (drop k c)")
    case (Inr d)
    then show ?thesis by (simp add: settle_def split: option.splits)
  next
    case (Inl e)
    with Cons show ?thesis
      by (cases "skip_loop env c ks") (simp add: settle_def)
  qed
qed

lemma row_find:
  assumes "b64decode (b @ replicate p 61) = Inr c"
    and "\<forall>x. lzma_decompress env x \<noteq> Inl BinasciiError"
  shows "find (\<lambda>pk. \<not> swallowed (candidate env b pk)) (map (Pair p) ks) =
         map_option (Pair p) (find (\<lambda>k. lzma_decompress env (drop k c) \<noteq> Inl LZMAError) ks)"
  using assms by (induction ks) (auto simp: candidate_def swallowed_def)

lemma row_swallowed:
  assumes "b64decode (b @ replicate p 61) = Inl BinasciiError"
  shows "\<forall>pk \<in> set (map (Pair p) ks). \<not> \<not> swallowed (candidate env b pk)"
  using assms by (auto simp: candidate_def swallowed_def)

lemma first_settled_skip_row:
  assumes "\<forall>pk \<in> set row. \<not> \<not> swallowed (candidate env b pk)"
  shows "first_settled env b (row @ rest) = first_settled env b rest"
  using find_append_none[of row "\<lambda>pk. \<not> swallowed (candidate env b pk)" rest] assms
  by (simp add: first_settled_def)

lemma first_settled_in_row:
  assumes "find (\<lambda>pk. \<not> swallowed (candidate env b pk)) row = Some pk"
  shows "first_settled env b (row @ rest) = settle (candidate env b pk)"
  using find_append_some[OF assms, of rest] by (simp add: first_settled_def)

lemma padding_loop_find:
  assumes lz: "\<forall>x. lzma_decompress env x \<noteq> Inl BinasciiError"
  shows "snd (padding_loop env b ps) =
         first_settled env b (concat (map (\<lambda>p. map (Pair p) header_lengths) ps))"
proof (induction ps)
  case Nil
  show ?case by (simp add: first_settled_def)
next
  case (Cons p ps)
  let ?row = "map (Pair p) header_lengths"
  let ?rest = "concat (map (\<lambda>p. map (Pair p) header_lengths) ps)"
  obtain ev2 f2 where r: "padding_loop env b ps = (ev2, f2)" by (cases "padding_loop env b ps")
  with Cons have ih: "f2 = first_settled env b ?rest" by simp
  show ?case
  proof (cases "b64decode (b @ replicate p 61)")
    case (Inl e)
    show ?thesis
    proof (cases "e = BinasciiError")
      case True
      with Inl have sw: "\<forall>pk \<in> set ?row. \<not> \<not> swallowed (candidate env b pk)"
        using row_swallowed by blast
      from Inl True r ih show ?thesis
        by (simp add: first_settled_skip_row[OF sw])
    next
      case False
      from b64decode_error[OF Inl] False have e: "e = ValueError" by simp
      have "find (\<lambda>pk. \<not> swallowed (candidate env b pk)) ?row = Some (p, 0)"
        using Inl e by (simp add: header_lengths_def candidate_def swallowed_def)
      from first_settled_in_row[OF this] Inl e show ?thesis
        by (simp add: candidate_def settle_def)
    qed
  next
    case (Inr c)
    obtain ev1 f1 where s: "skip_loop env c header_lengths = (ev1, f1)"
      by (cases "skip_loop env c header_lengths")
    from skip_loop_find[of env c header_lengths] s
    have f1: "f1 = (case find (\<lambda>k. lzma_decompress env (drop k c) \<noteq> Inl LZMAError) header_lengths of
        None \<Rightarrow> Fallthrough
      | Some k \<Rightarrow> settle (lzma_decompress env (drop k c)))" by simp
    show ?thesis
    proof (cases "find (\<lambda>k. lzma_decompress env (drop k c) \<noteq> Inl LZMAError) header_lengths")
      case None
      with f1 have "f1 = Fallthrough" by simp
      moreover from None row_find[OF Inr lz, of header_lengths]
      have "find (\<lambda>pk. \<not> swallowed (candidate env b pk)) ?row = None" by simp
      then have "\<forall>pk \<in> set ?row. \<not> \<not> swallowed (candidate env b pk)"
        by (simp add: find_None_iff)
      ultimately show ?thesis using Inr s r ih
        by (simp add: first_settled_skip_row)
    next
      case (Some k)
      with f1 have f1': "f1 = settle (lzma_decompress env (drop k c))" by simp
      from Some row_find[OF Inr lz, of header_lengths]
      have "find (\<lambda>pk. \<not> swallowed (candidate env b pk)) ?row = Some (p, k)" by simp
      from first_settled_in_row[OF this]
      have spec: "first_settled env b (?row @ ?rest) = settle (lzma_decompress env (drop k c))"
        using Inr by (simp add: candidate_def)
      have nb: "f1 \<noteq> Raise BinasciiError" "f1 \<noteq> Fallthrough"
        using f1' lz by (auto simp: settle_def split: sum.splits option.splits)
      show ?thesis
      proof (cases f1)
        case (Return res)
        with Inr s have "snd (padding_loop env b (p # ps)) = f1" by simp
        with spec f1' show ?thesis by simp
      next
        case (Raise x)
        with nb have "x \<noteq> BinasciiError" by simp
        with Raise Inr s have "snd (padding_loop env b (p # ps)) = f1" by simp
        with spec f1' show ?thesis by simp
      next
        case Fallthrough
        with nb show ?thesis by simp
      qed
    qed
  qed
qed

lemma standard_phase_first_settled:
  assumes "\<forall>x. lzma_decompress env x \<noteq> Inl BinasciiError"
  shows "snd (standard_phase env (Some (title, b))) = first_settled env b combinations"
proof -
  have c: "combinations = concat (map (\<lambda>p. map (Pair p) header_lengths) [0, 1, 2, 3])"
    by (simp add: combinations_def header_lengths_def)
  obtain ev f where r: "padding_loop env b [0, 1, 2, 3] = (ev, f)"
    by (cases "padding_loop env b [0, 1, 2, 3]")
  from padding_loop_find[OF assms, of b "[0, 1, 2, 3]"] r
  have "f = first_settled env b combinations" by (simp only: c snd_conv)
  with r show ?thesis by (simp add: standard_phase_def del: padding_loop.simps)
qed


lemma reroute_match_hi:
  "reroute_match
     (ustr ''https://itty.bitty.site/#t/?XQAAAAT//////////wAeHAPGmjSunYY0PxOG//+oUgAA'') = None"
  by (simp add: reroute_match_def reroute_rx_def re_match_def cats_def ustr_def)

lemma standard_match_hi:
  "standard_match
     (ustr ''https://itty.bitty.site/#t/?XQAAAAT//////////wAeHAPGmjSunYY0PxOG//+oUgAA'')
   = Some (ustr ''t'', ustr ''XQAAAAT//////////wAeHAPGmjSunYY0PxOG//+oUgAA'')"
  by (simp add: standard_match_def standard_rx_def re_match_def cats_def ustr_def)

lemma b64decode_hi:
  "b64decode (ustr ''XQAAAAT//////////wAeHAPGmjSunYY0PxOG//+oUgAA'') = Inr lzma_of_hi"
  by (simp add: b64decode_def ustr_def b64_val_def lzma_of_hi_def)

lemma candidate_hi:
  "candidate env_lzma_hi (ustr ''XQAAAAT//////////wAeHAPGmjSunYY0PxOG//+oUgAA'') (0, 0)
     = Inr [60, 112, 62, 104, 105, 60, 47, 112, 62]"
  by (simp add: candidate_def b64decode_hi env_lzma_hi_def)


lemma find_settled_hi:
  "find (\<lambda>pk. \<not> swallowed
           (candidate env_lzma_hi (ustr ''XQAAAAT//////////wAeHAPGmjSunYY0PxOG//+oUgAA'') pk))
        combinations = Some (0, 0)"
  by (simp only: combinations_list find.simps candidate_hi swallowed_def) simp


lemma env_lzma_hi_no_binascii: "\<forall>x. lzma_decompress env_lzma_hi x \<noteq> Inl BinasciiError"
  by (simp add: env_lzma_hi_def)


lemma candidate_ff:
  "candidate env_lzma_ff (ustr ''XQAAAAT//////////wB/wfv////gAAAA'') (0, 0) = Inr [255]"
  by (simp add: candidate_def b64decode_ff env_lzma_ff_def)


section \<open>Base64: decoding what was encoded\<close>

lemma b64_val_char: "i < 64 \<Longrightarrow> b64_val (b64_char i) = Some i"
  by (auto simp: b64_val_def b64_char_def)

lemma b64_char_not_pad: "i < 64 \<Longrightarrow> b64_char i \<noteq> 61"
  by (auto simp: b64_char_def)

lemma b64_char_ascii: "b64_char i < 128"
  by (auto simp: b64_char_def)

lemma a2b_d0:
  "i < 64 \<Longrightarrow> a2b_base64 (b64_char i # cs) 0 l p out = a2b_base64 cs 1 i 0 out"
  using b64_val_char[of i] b64_char_not_pad[of i] by simp

lemma a2b_d1:
  "i < 64 \<Longrightarrow> a2b_base64 (b64_char i # cs) 1 l p out
     = a2b_base64 cs 2 (i mod 16) 0 (out @ [of_nat (l * 4 + i div 16)])"
  using b64_val_char[of i] b64_char_not_pad[of i] by simp

lemma a2b_d2:
  "i < 64 \<Longrightarrow> a2b_base64 (b64_char i # cs) 2 l p out
     = a2b_base64 cs 3 (i mod 4) 0 (out @ [of_nat (l * 16 + i div 4)])"
  using b64_val_char[of i] b64_char_not_pad[of i] by simp

lemma a2b_d3:
  "i < 64 \<Longrightarrow> a2b_base64 (b64_char i # cs) 3 l p out
     = a2b_base64 cs 0 0 0 (out @ [of_nat (l * 64 + i)])"
  using b64_val_char[of i] b64_char_not_pad[of i] by simp

lemma sextets:
  fixes a b c :: nat
  assumes "a < 256" "b < 256" "c < 256"
  shows "a div 4 < 64" "a mod 4 * 16 + b div 16 < 64" "b mod 16 * 4 + c div 64 < 64"
    "c mod 64 < 64" "a mod 4 * 16 < 64" "b mod 16 * 4 < 64"
  using assms by auto

lemma regroup:
  fixes a b c :: nat
  assumes "a < 256" "b < 256" "c < 256"
  shows "a div 4 * 4 + (a mod 4 * 16 + b div 16) div 16 = a"
    "(a mod 4 * 16 + b div 16) mod 16 = b div 16"
    "b div 16 * 16 + (b mod 16 * 4 + c div 64) div 4 = b"
    "(b mod 16 * 4 + c div 64) mod 4 = c div 64"
    "c div 64 * 64 + c mod 64 = c"
    "a div 4 * 4 + (a mod 4 * 16) div 16 = a"
    "b div 16 * 16 + (b mod 16 * 4) div 4 = b"
  using assms by auto

lemma a2b_quad:
  assumes "a < 256" "b < 256" "c < 256"
  shows "a2b_base64 ([b64_char (a div 4), b64_char (a mod 4 * 16 + b div 16),
                      b64_char (b mod 16 * 4 + c div 64), b64_char (c mod 64)] @ cs) 0 l p out
         = a2b_base64 cs 0 0 0 (out @ [of_nat a, of_nat b, of_nat c])"
proof -
  note s = sextets[OF assms] and r = regroup[OF assms]
  show ?thesis
    by (simp only: append_Cons append_Nil a2b_d0[OF s(1)] a2b_d1[OF s(2)] a2b_d2[OF s(3)]
                   a2b_d3[OF s(4)] r append_assoc)
qed

lemma a2b_pads0: "a2b_base64 (replicate p 61) 0 l q out = Inr out"
  by (induction p) auto

lemma a2b_pads3:
  "a2b_base64 (replicate p 61) 3 l 0 out = (if 1 \<le> p then Inr out else Inl BinasciiError)"
  by (cases p) auto

lemma a2b_pads2:
  "a2b_base64 (replicate p 61) 2 l 0 out = (if 2 \<le> p then Inr out else Inl BinasciiError)"
proof (cases p)
  case 0
  then show ?thesis by simp
next
  case (Suc p')
  then show ?thesis by (cases p') auto
qed

lemma pads_needed_step: "pads_needed (Suc (Suc (Suc n))) = pads_needed n"
  by (simp add: pads_needed_def)

lemma a2b_data_pads:
  assumes "\<forall>n \<in> set ns. n < 256"
  shows "a2b_base64 (b64enc_data ns @ replicate p 61) 0 l q out =
         (if pads_needed (length ns) \<le> p then Inr (out @ map of_nat ns)
          else Inl BinasciiError)"
  using assms
proof (induction ns arbitrary: l q out rule: b64enc_data.induct)
  case (1 a b c rest)
  then have abc: "a < 256" "b < 256" "c < 256" and rest: "\<forall>n \<in> set rest. n < 256" by auto
  have "a2b_base64 (b64enc_data (a # b # c # rest) @ replicate p 61) 0 l q out
        = a2b_base64 (b64enc_data rest @ replicate p 61) 0 0 0
            (out @ [of_nat a, of_nat b, of_nat c])"
    using a2b_quad[OF abc, of "b64enc_data rest @ replicate p 61" l q out] by simp
  also have "\<dots> = (if pads_needed (length rest) \<le> p
                    then Inr ((out @ [of_nat a, of_nat b, of_nat c]) @ map of_nat rest)
                    else Inl BinasciiError)"
    by (rule "1.IH"[OF rest])
  finally show ?case by (simp add: pads_needed_step)
next
  case (2 a b)
  then have ab: "a < 256" "b < 256" by auto
  note s = sextets[OF ab(1) ab(2) ab(2)] and r = regroup[OF ab(1) ab(2) ab(2)]
  have "a2b_base64 (b64enc_data [a, b] @ replicate p 61) 0 l q out
        = a2b_base64 (replicate p 61) 3 (b mod 16 * 4 mod 4) 0 (out @ [of_nat a, of_nat b])"
    by (simp only: b64enc_data.simps append_Cons append_Nil a2b_d0[OF s(1)] a2b_d1[OF s(2)]
                   a2b_d2[OF s(6)] r append_assoc)
  then show ?case by (simp add: a2b_pads3 pads_needed_def)
next
  case (3 a)
  then have a: "a < 256" by auto
  note s = sextets[OF a a a] and r = regroup[OF a a a]
  have "a2b_base64 (b64enc_data [a] @ replicate p 61) 0 l q out
        = a2b_base64 (replicate p 61) 2 (a mod 4 * 16 mod 16) 0 (out @ [of_nat a])"
    by (simp only: b64enc_data.simps append_Cons append_Nil a2b_d0[OF s(1)] a2b_d1[OF s(5)]
                   r append_assoc)
  then show ?case by (simp add: a2b_pads2 pads_needed_def)
next
  case 4
  show ?case by (simp add: a2b_pads0 pads_needed_def)
qed

lemma b64enc_data_pads:
  "b64enc ns = b64enc_data ns @ replicate (pads_needed (length ns)) 61"
  by (induction ns rule: b64enc.induct)
     (simp_all add: pads_needed_def numeral_2_eq_2)

lemma b64enc_data_chars:
  assumes "\<forall>n \<in> set ns. n < 256"
  shows "\<forall>c \<in> set (b64enc_data ns). c \<noteq> 61 \<and> c < 128"
  using assms
proof (induction ns rule: b64enc_data.induct)
  case (1 a b c rest)
  then have abc: "a < 256" "b < 256" "c < 256" and rest: "\<forall>n \<in> set rest. n < 256" by auto
  from sextets[OF abc] "1.IH"[OF rest] show ?case
    by (auto simp: b64_char_not_pad b64_char_ascii)
next
  case (2 a b)
  then have ab: "a < 256" "b < 256" by auto
  from sextets[OF ab(1) ab(2) ab(2)] show ?case
    by (auto simp: b64_char_not_pad b64_char_ascii)
next
  case (3 a)
  then have a: "a < 256" by auto
  from sextets[OF a a a] show ?case
    by (auto simp: b64_char_not_pad b64_char_ascii)
next
  case 4
  show ?case by simp
qed

lemma strip_padding_pads:
  assumes "\<forall>c \<in> set xs. c \<noteq> 61"
  shows "strip_padding (xs @ replicate n 61) = xs"
proof -
  have "dropWhile (\<lambda>c. c = 61) (replicate n (61::nat) @ rev xs) = dropWhile (\<lambda>c. c = 61) (rev xs)"
    by (induction n) auto
  moreover have "dropWhile (\<lambda>c. c = 61) (rev xs) = rev xs"
    using assms by (cases "rev xs") (auto simp: rev_swap[symmetric])
  ultimately show ?thesis by (simp add: strip_padding_def)
qed

lemma length_b64enc_data:
  "(4 - length (b64enc_data ns) mod 4) mod 4 = pads_needed (length ns)"
  by (induction ns rule: b64enc_data.induct) (simp_all add: pads_needed_def)

lemma bytes_bounded: "\<forall>n \<in> set (map unat (bs :: byte list)). n < 256"
proof
  fix n assume "n \<in> set (map unat bs)"
  then obtain b :: byte where "n = unat b" by auto
  moreover have "unat b < 2 ^ LENGTH(8)" by (rule unsigned_less)
  ultimately show "n < 256" by simp
qed

lemma of_nat_unat_bytes: "map (of_nat \<circ> unat) (bs :: byte list) = bs"
  by (induction bs) auto

lemma b64decode_data_pads:
  "b64decode (b64enc_data (map unat bs) @ replicate p 61) =
     (if pads_needed (length bs) \<le> p then Inr bs else Inl BinasciiError)"
proof -
  have "\<not> (\<exists>c \<in> set (b64enc_data (map unat bs) @ replicate p 61). 128 \<le> c)"
    using b64enc_data_chars[OF bytes_bounded, of bs] by auto
  then show ?thesis
    using a2b_data_pads[OF bytes_bounded, of bs p 0 0 "[]"]
    by (simp add: b64decode_def of_nat_unat_bytes)
qed

lemma b64decode_b64encode: "b64decode (b64encode bs) = Inr bs"
  using b64decode_data_pads[of bs "pads_needed (length bs)"]
  by (simp add: b64encode_def b64enc_data_pads)

lemma strip_padding_b64encode:
  "strip_padding (b64encode bs) = b64enc_data (map unat bs)"
  using b64enc_data_chars[OF bytes_bounded, of bs]
  by (simp add: b64encode_def b64enc_data_pads strip_padding_pads)

section \<open>The padding counts that are tried\<close>

lemma padding_attempts_append:
  "padding_attempts (xs @ ys) = padding_attempts xs @ padding_attempts ys"
  by (induction xs rule: padding_attempts.induct) auto

lemma no_padding_attempts:
  "\<forall>e \<in> set ev. phase_of e \<noteq> 2 \<Longrightarrow> padding_attempts ev = []"
  by (induction ev rule: padding_attempts.induct) auto

lemma skip_loop_no_attempts: "padding_attempts (fst (skip_loop env c ks)) = []"
proof (induction ks)
  case Nil
  show ?case by simp
next
  case (Cons k ks)
  then show ?case
    by (cases "skip_loop env c ks") (auto split: sum.splits)
qed

lemma find_Some_mem: "find P xs = Some x \<Longrightarrow> x \<in> set xs"
  by (induction xs) (auto split: if_splits)

lemma find_in_rows:
  assumes "find P (concat (map (\<lambda>p. map (Pair p) ks) ps)) = Some pk"
  shows "fst pk \<in> set ps"
proof -
  from assms have "pk \<in> set (concat (map (\<lambda>p. map (Pair p) ks) ps))"
    by (rule find_Some_mem)
  then show ?thesis by auto
qed

lemma padding_loop_attempts:
  assumes lz: "\<forall>x. lzma_decompress env x \<noteq> Inl BinasciiError"
    and "distinct ps"
  shows "padding_attempts (fst (padding_loop env b ps)) =
         (case find (\<lambda>pk. \<not> swallowed (candidate env b pk))
                 (concat (map (\<lambda>p. map (Pair p) header_lengths) ps)) of
            None \<Rightarrow> ps
          | Some pk \<Rightarrow> takeWhile (\<lambda>x. x \<noteq> fst pk) ps @ [fst pk])"
  using assms(2)
proof (induction ps)
  case Nil
  show ?case by simp
next
  case (Cons p ps)
  let ?P = "\<lambda>pk. \<not> swallowed (candidate env b pk)"
  let ?row = "map (Pair p) header_lengths"
  let ?rest = "concat (map (\<lambda>p. map (Pair p) header_lengths) ps)"
  from Cons.prems have d: "distinct ps" "p \<notin> set ps" by auto
  obtain ev2 f2 where r: "padding_loop env b ps = (ev2, f2)" by (cases "padding_loop env b ps")
  from Cons.IH[OF d(1)] r
  have ih: "padding_attempts ev2 =
         (case find ?P ?rest of None \<Rightarrow> ps
          | Some pk \<Rightarrow> takeWhile (\<lambda>x. x \<noteq> fst pk) ps @ [fst pk])" by simp
  have skip: "padding_attempts (fst (padding_loop env b (p # ps))) =
         (case find ?P (?row @ ?rest) of None \<Rightarrow> p # ps
          | Some pk \<Rightarrow> takeWhile (\<lambda>x. x \<noteq> fst pk) (p # ps) @ [fst pk])"
    if sw: "\<forall>pk \<in> set ?row. \<not> ?P pk"
      and step: "padding_attempts (fst (padding_loop env b (p # ps))) = p # padding_attempts ev2"
  proof (cases "find ?P ?rest")
    case None
    with ih step find_append_none[OF sw, of ?rest] show ?thesis by simp
  next
    case (Some pk)
    from find_in_rows[OF Some] d have "fst pk \<noteq> p" by auto
    with Some ih step find_append_none[OF sw, of ?rest] show ?thesis by simp
  qed
  have stop: "padding_attempts (fst (padding_loop env b (p # ps))) =
         (case find ?P (?row @ ?rest) of None \<Rightarrow> p # ps
          | Some pk \<Rightarrow> takeWhile (\<lambda>x. x \<noteq> fst pk) (p # ps) @ [fst pk])"
    if hit: "find ?P ?row = Some (p, k)"
      and step: "padding_attempts (fst (padding_loop env b (p # ps))) = [p]" for k
    using find_append_some[OF hit, of ?rest] step by simp
  show ?case
  proof (cases "b64decode (b @ replicate p 61)")
    case (Inl e)
    show ?thesis
    proof (cases "e = BinasciiError")
      case True
      with Inl have sw: "\<forall>pk \<in> set ?row. \<not> ?P pk" using row_swallowed by blast
      have "padding_attempts (fst (padding_loop env b (p # ps))) = p # padding_attempts ev2"
        using Inl True r by simp
      from skip[OF sw this] show ?thesis by simp
    next
      case False
      from b64decode_error[OF Inl] False have e: "e = ValueError" by simp
      have hit: "find ?P ?row = Some (p, 0)"
        using Inl e by (simp add: header_lengths_def candidate_def swallowed_def)
      have "padding_attempts (fst (padding_loop env b (p # ps))) = [p]"
        using Inl e by simp
      from stop[OF hit this] show ?thesis by simp
    qed
  next
    case (Inr c)
    obtain ev1 f1 where s: "skip_loop env c header_lengths = (ev1, f1)"
      by (cases "skip_loop env c header_lengths")
    from skip_loop_no_attempts[of env c header_lengths] s
    have na: "padding_attempts ev1 = []" by simp
    from skip_loop_find[of env c header_lengths] s
    have f1: "f1 = (case find (\<lambda>k. lzma_decompress env (drop k c) \<noteq> Inl LZMAError) header_lengths of
        None \<Rightarrow> Fallthrough
      | Some k \<Rightarrow> settle (lzma_decompress env (drop k c)))" by simp
    show ?thesis
    proof (cases "find (\<lambda>k. lzma_decompress env (drop k c) \<noteq> Inl LZMAError) header_lengths")
      case None
      with f1 have ft: "f1 = Fallthrough" by simp
      from None row_find[OF Inr lz, of header_lengths]
      have "find ?P ?row = None" by simp
      then have sw: "\<forall>pk \<in> set ?row. \<not> ?P pk" by (simp add: find_None_iff)
      have "padding_attempts (fst (padding_loop env b (p # ps))) = p # padding_attempts ev2"
        using Inr s ft r na by (simp add: padding_attempts_append)
      from skip[OF sw this] show ?thesis by simp
    next
      case (Some k)
      with f1 have f1': "f1 = settle (lzma_decompress env (drop k c))" by simp
      from Some row_find[OF Inr lz, of header_lengths]
      have hit: "find ?P ?row = Some (p, k)" by simp
      have nb: "f1 \<noteq> Raise BinasciiError" "f1 \<noteq> Fallthrough"
        using f1' lz by (auto simp: settle_def split: sum.splits option.splits)
      have "padding_attempts (fst (padding_loop env b (p # ps))) = [p]"
      proof (cases f1)
        case (Return res)
        with Inr s na show ?thesis by simp
      next
        case (Raise x)
        with nb have "x \<noteq> BinasciiError" by simp
        with Raise Inr s na show ?thesis by simp
      next
        case Fallthrough
        with nb show ?thesis by simp
      qed
      from stop[OF hit this] show ?thesis by simp
    qed
  qed
qed

lemma js_phase_no_attempts: "padding_attempts (fst (js_phase env h sm)) = []"
proof -
  obtain ev f where j: "js_phase env h sm = (ev, f)" by (cases "js_phase env h sm")
  from js_phase_log[OF j] have "\<forall>e \<in> set ev. phase_of e \<noteq> 2" by auto
  with j show ?thesis by (simp add: no_padding_attempts)
qed

lemma fetch_phase_no_attempts: "padding_attempts (fst (fetch_phase env h)) = []"
proof -
  obtain ev r where f: "fetch_phase env h = (ev, r)" by (cases "fetch_phase env h")
  from fetch_phase_log[OF f] have "\<forall>e \<in> set ev. phase_of e \<noteq> 2" by auto
  with f show ?thesis by (simp add: no_padding_attempts)
qed

lemma decode_hashlink_attempts:
  assumes "reroute_match h = None"
  shows "padding_attempts (fst (decode_hashlink env h)) =
         padding_attempts (fst (standard_phase env (standard_match h)))"
proof -
  from assms have rp: "reroute_phase h = None" by (simp add: reroute_phase_def)
  obtain ev2 f2 where s: "standard_phase env (standard_match h) = (ev2, f2)"
    by (cases "standard_phase env (standard_match h)")
  obtain ev3 f3 where j: "js_phase env h (standard_match h) = (ev3, f3)"
    by (cases "js_phase env h (standard_match h)")
  obtain ev4 r4 where f: "fetch_phase env h = (ev4, r4)" by (cases "fetch_phase env h")
  from js_phase_no_attempts[of env h "standard_match h"] j
  have a3: "padding_attempts ev3 = []" by simp
  from fetch_phase_no_attempts[of env h] f have a4: "padding_attempts ev4 = []" by simp
  show ?thesis
  proof (cases f2)
    case (Return r)
    with rp s show ?thesis by (simp add: decode_hashlink_def local_phases_def)
  next
    case (Raise e)
    with rp s show ?thesis
      by (simp add: decode_hashlink_def local_phases_def padding_attempts_append)
  next
    case Fallthrough
    with rp s j f a3 a4 show ?thesis
      by (cases f3)
         (simp_all add: decode_hashlink_def local_phases_def padding_attempts_append)
  qed
qed

lemma standard_phase_attempts:
  assumes "\<forall>x. lzma_decompress env x \<noteq> Inl BinasciiError"
  shows "padding_attempts (fst (standard_phase env (Some (title, b)))) =
         (case find (\<lambda>pk. \<not> swallowed (candidate env b pk)) combinations of
            None \<Rightarrow> [0, 1, 2, 3]
          | Some pk \<Rightarrow> [0..<Suc (fst pk)])"
proof -
  let ?P = "\<lambda>pk. \<not> swallowed (candidate env b pk)"
  have c: "combinations = concat (map (\<lambda>p. map (Pair p) header_lengths) [0, 1, 2, 3])"
    by (simp add: combinations_def header_lengths_def)
  obtain ev f where r: "padding_loop env b [0, 1, 2, 3] = (ev, f)"
    by (cases "padding_loop env b [0, 1, 2, 3]")
  have d: "distinct [0, 1, 2, 3 :: nat]" by simp
  from padding_loop_attempts[OF assms d, of b] r
  have a: "padding_attempts ev =
         (case find ?P combinations of None \<Rightarrow> [0, 1, 2, 3]
          | Some pk \<Rightarrow> takeWhile (\<lambda>x. x \<noteq> fst pk) [0, 1, 2, 3] @ [fst pk])"
    by (simp only: c fst_conv)
  have t: "takeWhile (\<lambda>x. x \<noteq> fst pk) [0, 1, 2, 3] @ [fst pk] = [0..<Suc (fst pk)]"
    if "find ?P combinations = Some pk" for pk
  proof -
    from find_in_rows[OF that[unfolded c]] have "fst pk \<in> {0, 1, 2, 3}" by simp
    then show ?thesis by (auto simp: upt_rec)
  qed
  have "padding_attempts (fst (standard_phase env (Some (title, b)))) = padding_attempts ev"
    using r by (simp add: standard_phase_def del: padding_loop.simps)
  with a t show ?thesis by (cases "find ?P combinations") auto
qed

text \<open>
  C6, as the code has it. Strategy 2 tries the padding counts 0, 1, 2, 3 in that order
  and stops at the first count for which a candidate is not a swallowed failure; a
  base64 decoding that succeeds does not end the loop while LZMA rejects the bytes at
  all four offsets. For the encoding of any bytes with its trailing pad characters
  stripped, base64 decoding succeeds, with the original bytes, exactly from the padding
  count that completes the length to a multiple of four, and that count is at most 2.
\<close>

theorem C6_padding_counts_and_repair:
  "(reroute_match hashlink = None \<and> standard_match hashlink = Some (title, b64_part)
      \<and> (\<forall>x. lzma_decompress env x \<noteq> Inl BinasciiError) \<longrightarrow>
      padding_attempts (fst (decode_hashlink env hashlink)) =
        (case find (\<lambda>pk. \<not> swallowed (candidate env b64_part pk)) combinations of
           None \<Rightarrow> [0, 1, 2, 3]
         | Some pk \<Rightarrow> [0..<Suc (fst pk)]))
   \<and> b64decode (strip_padding (b64encode bs) @ replicate p 61) =
        (if (4 - length (strip_padding (b64encode bs)) mod 4) mod 4 \<le> p then Inr bs
         else Inl BinasciiError)
   \<and> (4 - length (strip_padding (b64encode bs)) mod 4) mod 4 \<le> 2"
proof -
  have a: "padding_attempts (fst (decode_hashlink env hashlink)) =
        (case find (\<lambda>pk. \<not> swallowed (candidate env b64_part pk)) combinations of
           None \<Rightarrow> [0, 1, 2, 3]
         | Some pk \<Rightarrow> [0..<Suc (fst pk)])"
    if "reroute_match hashlink = None" "standard_match hashlink = Some (title, b64_part)"
      "\<forall>x. lzma_decompress env x \<noteq> Inl BinasciiError"
    using decode_hashlink_attempts[OF that(1), of env]
          standard_phase_attempts[OF that(3), of title b64_part] that(2)
    by simp
  have n: "(4 - length (strip_padding (b64encode bs)) mod 4) mod 4 = pads_needed (length bs)"
    using length_b64enc_data[of "map unat bs"] by (simp add: strip_padding_b64encode)
  have b: "b64decode (strip_padding (b64encode bs) @ replicate p 61) =
        (if (4 - length (strip_padding (b64encode bs)) mod 4) mod 4 \<le> p then Inr bs
         else Inl BinasciiError)"
    unfolding n by (simp add: strip_padding_b64encode b64decode_data_pads)
  have c: "(4 - length (strip_padding (b64encode bs)) mod 4) mod 4 \<le> 2"
    unfolding n by (simp add: pads_needed_def)
  from a b c show ?thesis by blast
qed

theorem C6_padding_counts_and_repair_witness:
  "reroute_match
     (ustr ''https://itty.bitty.site/#t/?XQAAAAT//////////wAeHAPGmjSunYY0PxOG//+oUgAA'') = None
   \<and> standard_match
       (ustr ''https://itty.bitty.site/#t/?XQAAAAT//////////wAeHAPGmjSunYY0PxOG//+oUgAA'')
     = Some (ustr ''t'', ustr ''XQAAAAT//////////wAeHAPGmjSunYY0PxOG//+oUgAA'')
   \<and> padding_attempts (fst (decode_hashlink env_lzma_hi
       (ustr ''https://itty.bitty.site/#t/?XQAAAAT//////////wAeHAPGmjSunYY0PxOG//+oUgAA'')))
     = [0]"
proof -
  have "padding_attempts (fst (decode_hashlink env_lzma_hi
       (ustr ''https://itty.bitty.site/#t/?XQAAAAT//////////wAeHAPGmjSunYY0PxOG//+oUgAA'')))
     = (case find (\<lambda>pk. \<not> swallowed (candidate env_lzma_hi
                (ustr ''XQAAAAT//////////wAeHAPGmjSunYY0PxOG//+oUgAA'') pk)) combinations of
           None \<Rightarrow> [0, 1, 2, 3]
         | Some pk \<Rightarrow> [0..<Suc (fst pk)])"
    using C6_padding_counts_and_repair [of
            "ustr ''https://itty.bitty.site/#t/?XQAAAAT//////////wAeHAPGmjSunYY0PxOG//+oUgAA''"
            "ustr ''t''" "ustr ''XQAAAAT//////////wAeHAPGmjSunYY0PxOG//+oUgAA''" env_lzma_hi]
          reroute_match_hi standard_match_hi env_lzma_hi_no_binascii
    by blast
  also have "\<dots> = [0]" by (simp only: find_settled_hi option.case fst_conv) simp
  finally show ?thesis using reroute_match_hi standard_match_hi by blast
qed

lemma reroute_match_AAAA:
  "reroute_match (ustr ''https://itty.bitty.site/#t/?AAAA'') = None"
  by (simp add: reroute_match_def reroute_rx_def re_match_def cats_def ustr_def)

lemma standard_match_AAAA:
  "standard_match (ustr ''https://itty.bitty.site/#t/?AAAA'') = Some (ustr ''t'', ustr ''AAAA'')"
  by (simp add: standard_match_def standard_rx_def re_match_def cats_def ustr_def)

lemma b64decode_AAAA: "b64decode (ustr ''AAAA'' @ replicate p 61) = Inr [0, 0, 0]"
proof -
  have "a2b_base64 (ustr ''AAAA'' @ replicate p 61) 0 0 0 [] = a2b_base64 (replicate p 61) 0 0 0 [0, 0, 0]"
    by (simp add: ustr_def b64_val_def)
  moreover have "\<not> (\<exists>c \<in> set (ustr ''AAAA'' @ replicate p 61). 128 \<le> c)"
    by (auto simp: ustr_def)
  ultimately show ?thesis by (simp add: b64decode_def a2b_pads0)
qed

lemma standard_phase_AAAA:
  "standard_phase env_offline (Some (ustr ''t'', ustr ''AAAA''))
     = ([Info_standard_check,
         Info_padding_attempt 0, Error_lzma 0, Error_lzma 5, Error_lzma 9, Error_lzma 13,
         Info_padding_attempt 1, Error_lzma 0, Error_lzma 5, Error_lzma 9, Error_lzma 13,
         Info_padding_attempt 2, Error_lzma 0, Error_lzma 5, Error_lzma 9, Error_lzma 13,
         Info_padding_attempt 3, Error_lzma 0, Error_lzma 5, Error_lzma 9, Error_lzma 13],
        Fallthrough)"
  by (simp add: standard_phase_def b64decode_AAAA b64decode_AAAA[of 0, simplified]
                b64decode_AAAA[of "Suc 0", simplified] header_lengths_def env_offline_def)

theorem C6_loop_goes_on_after_base64_success_counterexample:
  "b64decode (ustr ''AAAA'' @ replicate 0 61) = Inr [0, 0, 0]
   \<and> padding_attempts (fst (decode_hashlink env_offline
        (ustr ''https://itty.bitty.site/#t/?AAAA''))) = [0, 1, 2, 3]"
  by (simp only: b64decode_AAAA decode_hashlink_attempts[OF reroute_match_AAAA]
                 standard_match_AAAA standard_phase_AAAA fst_conv padding_attempts.simps simp_thms)

section \<open>The fetch from the official site\<close>

lemma fetch_retry_gets:
  assumes "fetch_retry env h = (ev, r)"
  shows "\<forall>u t. Http_get u t \<in> set ev \<longrightarrow> t = 10"
proof (cases "retry_url h")
  case (Inl e)
  with assms show ?thesis by (auto simp: fetch_retry_def)
next
  case (Inr u)
  show ?thesis
  proof (cases "requests_get env 1 u 10")
    case (Inl e)
    with Inr assms show ?thesis by (auto simp: fetch_retry_def)
  next
    case r2: (Inr resp)
    obtain html toast where a: "accept_toast (resp_text resp) = (html, toast)"
      by (cases "accept_toast (resp_text resp)")
    from Inr r2 a assms show ?thesis
      by (cases "body_search html") (auto simp: fetch_retry_def split: if_splits)
  qed
qed

lemma fetch_body_gets:
  assumes "fetch_body env h = (ev, r)"
  shows "(\<exists>ev'. ev = Http_get h 10 # ev') \<and> (\<forall>u t. Http_get u t \<in> set ev \<longrightarrow> t = 10)"
proof (cases "requests_get env 0 h 10")
  case (Inl e)
  with assms show ?thesis by (auto simp: fetch_body_def)
next
  case (Inr resp)
  show ?thesis
  proof (cases "status_code resp = 200")
    case False
    with Inr assms show ?thesis by (auto simp: fetch_body_def)
  next
    case True
    obtain html toast where a: "accept_toast (resp_text resp) = (html, toast)"
      by (cases "accept_toast (resp_text resp)")
    obtain ev1 r1 where q: "(if re_search redirect_rx html \<noteq> None
                         then fetch_retry env h else ([], Inr None)) = (ev1, r1)"
      by (cases "(if re_search redirect_rx html \<noteq> None
                         then fetch_retry env h else ([], Inr None))")
    have g1: "\<forall>u t. Http_get u t \<in> set ev1 \<longrightarrow> t = 10"
    proof (cases "re_search redirect_rx html \<noteq> None")
      case True
      with q have "fetch_retry env h = (ev1, r1)" by simp
      from fetch_retry_gets[OF this] show ?thesis .
    next
      case False
      with q show ?thesis by auto
    qed
    define pre where "pre = [Http_get h 10, Info_fetch_received]
                              @ (if toast then [Info_toast_accepted] else [])"
    have pre: "\<exists>ev'. pre = Http_get h 10 # ev'" "\<forall>u t. Http_get u t \<in> set pre \<longrightarrow> t = 10"
      by (auto simp: pre_def)
    show ?thesis
    proof (cases r1)
      case (Inl e)
      with Inr True a q assms have e: "ev = pre @ ev1"
        by (auto simp: fetch_body_def pre_def)
      with pre g1 show ?thesis by auto
    next
      case r1: (Inr o1)
      show ?thesis
      proof (cases o1)
        case (Some res)
        with r1 Inr True a q assms have e: "ev = pre @ ev1"
          by (auto simp: fetch_body_def pre_def)
        with pre g1 show ?thesis by auto
      next
        case None
        obtain ev2 res where x: "extract_initial html = (ev2, res)"
          by (cases "extract_initial html")
        then have g2: "\<forall>u t. Http_get u t \<notin> set ev2"
          by (auto simp: extract_initial_def split: option.splits)
        from None r1 Inr True a q x assms have e: "ev = pre @ ev1 @ ev2"
          by (auto simp: fetch_body_def pre_def)
        with pre g1 g2 show ?thesis by auto
      qed
    qed
  qed
qed

lemma fetch_phase_gets:
  assumes "fetch_phase env h = (ev, r)"
  shows "(\<exists>ev'. ev = Info_fetch_attempt # Http_get h 10 # ev')
       \<and> (\<forall>u t. Http_get u t \<in> set ev \<longrightarrow> t = 10)"
proof -
  obtain ev1 r1 where b: "fetch_body env h = (ev1, r1)" by (cases "fetch_body env h")
  from fetch_body_gets[OF b] obtain ev' where
    g: "ev1 = Http_get h 10 # ev'" "\<forall>u t. Http_get u t \<in> set ev1 \<longrightarrow> t = 10" by blast
  show ?thesis
  proof (cases r1)
    case (Inr res)
    with b assms have "ev = Info_fetch_attempt # ev1" by (simp add: fetch_phase_def)
    with g show ?thesis by simp
  next
    case (Inl e)
    with b assms have "ev = Info_fetch_attempt # ev1 @ [Error_no_network]
                     \<or> ev = Info_fetch_attempt # ev1 @ [Error_fetch_failed e]"
      by (auto simp: fetch_phase_def split: if_splits)
    with g show ?thesis by auto
  qed
qed

lemma fetch_phase_get_raises:
  assumes "requests_get env 0 h 10 = Inl e"
  shows "snd (fetch_phase env h) =
       (if e = ConnectionError then Failure No_network v_fetch
        else Failure (Fetch_failed e) v_fetch)"
proof -
  from assms have "fetch_body env h = ([Http_get h 10], Inl e)" by (simp add: fetch_body_def)
  then show ?thesis by (simp add: fetch_phase_def)
qed

lemma fetch_phase_bad_status:
  assumes "requests_get env 0 h 10 = Inr resp" and "status_code resp \<noteq> 200"
  shows "snd (fetch_phase env h) = Failure (Bad_status (status_code resp)) v_fetch"
proof -
  from assms have "fetch_body env h =
      ([Http_get h 10, Error_initial_status (status_code resp)],
       Inr (Failure (Bad_status (status_code resp)) v_fetch))" by (simp add: fetch_body_def)
  then show ?thesis by (simp add: fetch_phase_def)
qed

text \<open>
  C8. When the fetch is reached, its first entry after the announcement is the request of
  the hashlink itself with a timeout of 10 seconds, and every request of the run has that
  timeout. A status other than 200, a connection failure (the class of
  \<open>requests.exceptions.ConnectionError\<close>, which includes a connect timeout) and any other
  exception of the request (a read timeout) each end the call with a failure, and the
  failure for a missing connection differs from the one for a bad status.
\<close>

theorem C8_fetch_failures_are_terminal:
  assumes "local_phases env hashlink = (ev, None)"
  shows "(\<exists>ev'. fst (decode_hashlink env hashlink)
              = Info_start # ev @ Info_fetch_attempt # Http_get hashlink 10 # ev')
       \<and> (\<forall>u t. Http_get u t \<in> set (fst (decode_hashlink env hashlink)) \<longrightarrow> t = 10)
       \<and> (\<forall>resp. requests_get env 0 hashlink 10 = Inr resp \<and> status_code resp \<noteq> 200 \<longrightarrow>
             snd (decode_hashlink env hashlink)
               = Failure (Bad_status (status_code resp)) ''Fail-safe (official site)'')
       \<and> (requests_get env 0 hashlink 10 = Inl ConnectionError \<longrightarrow>
             snd (decode_hashlink env hashlink) = Failure No_network ''Fail-safe (official site)'')
       \<and> (\<forall>e. requests_get env 0 hashlink 10 = Inl e \<and> e \<noteq> ConnectionError \<longrightarrow>
             snd (decode_hashlink env hashlink)
               = Failure (Fetch_failed e) ''Fail-safe (official site)'')
       \<and> (\<forall>code. Failure No_network ''Fail-safe (official site)''
               \<noteq> Failure (Bad_status code) ''Fail-safe (official site)'')"
proof -
  obtain ev4 r where f: "fetch_phase env hashlink = (ev4, r)"
    by (cases "fetch_phase env hashlink")
  from assms f have d: "decode_hashlink env hashlink = (Info_start # ev @ ev4, r)"
    by (simp add: decode_hashlink_def)
  from fetch_phase_gets[OF f] obtain ev' where
    g: "ev4 = Info_fetch_attempt # Http_get hashlink 10 # ev'"
       "\<forall>u t. Http_get u t \<in> set ev4 \<longrightarrow> t = 10" by blast
  from local_phases_log[OF assms] have "\<forall>e \<in> set ev. phase_of e \<le> 3" by simp
  then have l: "\<forall>u t. Http_get u t \<notin> set ev" by fastforce
  have a: "\<exists>ev'. fst (decode_hashlink env hashlink)
              = Info_start # ev @ Info_fetch_attempt # Http_get hashlink 10 # ev'"
    using d g(1) by simp
  have b: "\<forall>u t. Http_get u t \<in> set (fst (decode_hashlink env hashlink)) \<longrightarrow> t = 10"
    using d g(2) l by auto
  have r: "snd (decode_hashlink env hashlink) = snd (fetch_phase env hashlink)"
    using d f by simp
  have c: "\<forall>resp. requests_get env 0 hashlink 10 = Inr resp \<and> status_code resp \<noteq> 200 \<longrightarrow>
             snd (decode_hashlink env hashlink)
               = Failure (Bad_status (status_code resp)) ''Fail-safe (official site)''"
    using fetch_phase_bad_status[of env hashlink] r by (simp add: v_fetch_def)
  have e: "requests_get env 0 hashlink 10 = Inl ConnectionError \<longrightarrow>
             snd (decode_hashlink env hashlink) = Failure No_network ''Fail-safe (official site)''"
    using fetch_phase_get_raises[of env hashlink ConnectionError] r by (simp add: v_fetch_def)
  have o: "\<forall>e. requests_get env 0 hashlink 10 = Inl e \<and> e \<noteq> ConnectionError \<longrightarrow>
             snd (decode_hashlink env hashlink)
               = Failure (Fetch_failed e) ''Fail-safe (official site)''"
    using fetch_phase_get_raises[of env hashlink] r by (simp add: v_fetch_def)
  from a b c e o show ?thesis by simp
qed

lemma standard_phase_AAAA_404:
  "snd (standard_phase env_404 (Some (ustr ''t'', ustr ''AAAA''))) = Fallthrough"
  by (simp add: standard_phase_def b64decode_AAAA b64decode_AAAA[of 0, simplified]
                b64decode_AAAA[of "Suc 0", simplified] header_lengths_def env_404_def)

lemma js_phase_no_runtime:
  "execjs_compile env = Some ExecjsError \<Longrightarrow>
     js_phase env h sm = ([Info_js_attempt, Error_js_failed ExecjsError], Fallthrough)"
  by (simp add: js_phase_def js_try_def)

lemma local_phases_AAAA:
  "snd (local_phases env_offline (ustr ''https://itty.bitty.site/#t/?AAAA'')) = None"
proof -
  have "execjs_compile env_offline = Some ExecjsError" by (simp add: env_offline_def)
  from js_phase_no_runtime[OF this] show ?thesis
    by (simp add: local_phases_def reroute_phase_def reroute_match_AAAA standard_match_AAAA
                  standard_phase_AAAA)
qed

lemma local_phases_AAAA_404:
  "snd (local_phases env_404 (ustr ''https://itty.bitty.site/#t/?AAAA'')) = None"
proof -
  obtain ev where s: "standard_phase env_404 (Some (ustr ''t'', ustr ''AAAA'')) = (ev, Fallthrough)"
    using standard_phase_AAAA_404
    by (cases "standard_phase env_404 (Some (ustr ''t'', ustr ''AAAA''))") auto
  have "execjs_compile env_404 = Some ExecjsError" by (simp add: env_404_def)
  from js_phase_no_runtime[OF this] s show ?thesis
    by (simp add: local_phases_def reroute_phase_def reroute_match_AAAA standard_match_AAAA)
qed

theorem C8_fetch_failures_are_terminal_witness:
  "snd (local_phases env_offline (ustr ''https://itty.bitty.site/#t/?AAAA'')) = None
   \<and> snd (decode_hashlink env_offline (ustr ''https://itty.bitty.site/#t/?AAAA''))
       = Failure No_network ''Fail-safe (official site)''
   \<and> snd (local_phases env_404 (ustr ''https://itty.bitty.site/#t/?AAAA'')) = None
   \<and> snd (decode_hashlink env_404 (ustr ''https://itty.bitty.site/#t/?AAAA''))
       = Failure (Bad_status 404) ''Fail-safe (official site)''"
proof -
  obtain ev where l: "local_phases env_offline (ustr ''https://itty.bitty.site/#t/?AAAA'') = (ev, None)"
    using local_phases_AAAA
    by (cases "local_phases env_offline (ustr ''https://itty.bitty.site/#t/?AAAA'')") auto
  obtain ev' where l': "local_phases env_404 (ustr ''https://itty.bitty.site/#t/?AAAA'') = (ev', None)"
    using local_phases_AAAA_404
    by (cases "local_phases env_404 (ustr ''https://itty.bitty.site/#t/?AAAA'')") auto
  have g: "requests_get env_offline 0 (ustr ''https://itty.bitty.site/#t/?AAAA'') 10
             = Inl ConnectionError" by (simp add: env_offline_def)
  have g': "requests_get env_404 0 (ustr ''https://itty.bitty.site/#t/?AAAA'') 10
             = Inr \<lparr>status_code = 404, resp_text = []\<rparr>" by (simp add: env_404_def)
  note t = C8_fetch_failures_are_terminal[OF l]
  note t' = C8_fetch_failures_are_terminal[OF l']
  from t[THEN conjunct2, THEN conjunct2, THEN conjunct2, THEN conjunct1] g
  have 1: "snd (decode_hashlink env_offline (ustr ''https://itty.bitty.site/#t/?AAAA''))
       = Failure No_network ''Fail-safe (official site)''" by (rule mp)
  from t'[THEN conjunct2, THEN conjunct2, THEN conjunct1, THEN spec,
          of "\<lparr>status_code = 404, resp_text = []\<rparr>"] g'
  have 2: "snd (decode_hashlink env_404 (ustr ''https://itty.bitty.site/#t/?AAAA''))
       = Failure (Bad_status 404) ''Fail-safe (official site)''" by simp
  show ?thesis
    by (intro conjI) (rule local_phases_AAAA, rule 1, rule local_phases_AAAA_404, rule 2)
qed

section \<open>The retried request\<close>

lemma gets_append: "gets (xs @ ys) = gets xs @ gets ys"
  by (induction xs rule: gets.induct) auto

lemma no_gets: "\<forall>e \<in> set ev. phase_of e \<noteq> 4 \<Longrightarrow> gets ev = []"
  by (induction ev rule: gets.induct) auto

lemma extract_initial_gets: "gets (fst (extract_initial html)) = []"
  by (simp add: extract_initial_def split: option.splits)

text \<open>The four ways in which the retry block ends.\<close>

lemma fetch_retry_raises:
  assumes "retry_url h = Inr u" and "requests_get env 1 u 10 = Inl e"
  shows "gets (fst (fetch_retry env h)) = [(u, 10)]" "snd (fetch_retry env h) = Inl e"
  using assms by (simp_all add: fetch_retry_def)

lemma fetch_retry_bad_status:
  assumes "retry_url h = Inr u" and "requests_get env 1 u 10 = Inr rr"
    and "status_code rr \<noteq> 200"
  shows "gets (fst (fetch_retry env h)) = [(u, 10)]" "snd (fetch_retry env h) = Inr None"
  using assms by (simp_all add: fetch_retry_def)

lemma fetch_retry_no_body:
  assumes "retry_url h = Inr u" and "requests_get env 1 u 10 = Inr rr"
    and "status_code rr = 200" and "body_search (fst (accept_toast (resp_text rr))) = None"
  shows "gets (fst (fetch_retry env h)) = [(u, 10)]" "snd (fetch_retry env h) = Inr None"
  using assms
  by (cases "accept_toast (resp_text rr)"; simp add: fetch_retry_def gets_append)+

lemma fetch_retry_body:
  assumes "retry_url h = Inr u" and "requests_get env 1 u 10 = Inr rr"
    and "status_code rr = 200"
    and "body_search (fst (accept_toast (resp_text rr))) = Some content"
  shows "gets (fst (fetch_retry env h)) = [(u, 10)]"
    "snd (fetch_retry env h) =
       Inr (Some (Document (py_strip content) (v_fetch @ '' (via v1 retry)'')))"
  using assms
  by (cases "accept_toast (resp_text rr)"; simp add: fetch_retry_def gets_append)+

lemma fetch_body_page:
  assumes "requests_get env 0 h 10 = Inr resp" and "status_code resp = 200"
    and "accept_toast (resp_text resp) = (html, toast)"
  shows "gets (fst (fetch_body env h)) =
           (h, 10) # (if re_search redirect_rx html \<noteq> None
                      then gets (fst (fetch_retry env h)) else [])"
    and "snd (fetch_body env h) =
           (case (if re_search redirect_rx html \<noteq> None
                  then snd (fetch_retry env h) else Inr None) of
              Inl e \<Rightarrow> Inl e
            | Inr (Some r) \<Rightarrow> Inr r
            | Inr None \<Rightarrow> Inr (snd (extract_initial html)))"
proof -
  obtain ev1 r1 where q: "(if re_search redirect_rx html \<noteq> None
                         then fetch_retry env h else ([], Inr None)) = (ev1, r1)"
    by (cases "(if re_search redirect_rx html \<noteq> None
                         then fetch_retry env h else ([], Inr None))")
  obtain ev2 res where x: "extract_initial html = (ev2, res)"
    by (cases "extract_initial html")
  from extract_initial_gets[of html] x have g2: "gets ev2 = []" by simp
  have e1: "(if re_search redirect_rx html \<noteq> None
                      then gets (fst (fetch_retry env h)) else []) = gets ev1"
    and e2: "(if re_search redirect_rx html \<noteq> None
                  then snd (fetch_retry env h) else Inr None) = r1"
    using q by (auto split: if_splits)
  have t: "gets (if toast then [Info_toast_accepted] else []) = []" by simp
  show "gets (fst (fetch_body env h)) =
           (h, 10) # (if re_search redirect_rx html \<noteq> None
                      then gets (fst (fetch_retry env h)) else [])"
    unfolding e1 using assms q x g2 t
    by (cases r1; cases "projr r1")
       (simp_all add: fetch_body_def gets_append)
  show "snd (fetch_body env h) =
           (case (if re_search redirect_rx html \<noteq> None
                  then snd (fetch_retry env h) else Inr None) of
              Inl e \<Rightarrow> Inl e
            | Inr (Some r) \<Rightarrow> Inr r
            | Inr None \<Rightarrow> Inr (snd (extract_initial html)))"
    unfolding e2 using assms q x
    by (cases r1; cases "projr r1") (simp_all add: fetch_body_def)
qed

lemma fetch_phase_gets_eq: "gets (fst (fetch_phase env h)) = gets (fst (fetch_body env h))"
  by (cases "fetch_body env h"; cases "snd (fetch_body env h)")
     (simp_all add: fetch_phase_def gets_append)

lemma fetch_phase_result:
  "snd (fetch_phase env h) =
     (case snd (fetch_body env h) of
        Inr r \<Rightarrow> r
      | Inl e \<Rightarrow> if e = ConnectionError then Failure No_network v_fetch
                 else Failure (Fetch_failed e) v_fetch)"
  by (cases "fetch_body env h"; cases "snd (fetch_body env h)")
     (simp_all add: fetch_phase_def)

lemma decode_hashlink_fetch:
  assumes "local_phases env h = (ev, None)"
  shows "gets (fst (decode_hashlink env h)) = gets (fst (fetch_phase env h))"
    and "snd (decode_hashlink env h) = snd (fetch_phase env h)"
proof -
  from local_phases_log[OF assms] have "\<forall>e \<in> set ev. phase_of e \<le> 3" by simp
  then have "\<forall>e \<in> set ev. phase_of e \<noteq> 4" by fastforce
  then have g: "gets ev = []" by (rule no_gets)
  show "gets (fst (decode_hashlink env h)) = gets (fst (fetch_phase env h))"
    using assms g by (cases "fetch_phase env h") (simp add: decode_hashlink_def gets_append)
  show "snd (decode_hashlink env h) = snd (fetch_phase env h)"
    using assms by (cases "fetch_phase env h") (simp add: decode_hashlink_def)
qed

lemma standard_phase_AAAA_rejected:
  assumes "lzma_decompress env = (\<lambda>b. Inl LZMAError)"
  shows "snd (standard_phase env (Some (ustr ''t'', ustr ''AAAA''))) = Fallthrough"
  using assms
  by (simp add: standard_phase_def b64decode_AAAA b64decode_AAAA[of 0, simplified]
                b64decode_AAAA[of "Suc 0", simplified] header_lengths_def)

lemma local_phases_AAAA_rejected:
  assumes "lzma_decompress env = (\<lambda>b. Inl LZMAError)"
    and "execjs_compile env = Some ExecjsError"
  shows "snd (local_phases env (ustr ''https://itty.bitty.site/#t/?AAAA'')) = None"
proof -
  obtain ev where s: "standard_phase env (Some (ustr ''t'', ustr ''AAAA'')) = (ev, Fallthrough)"
    using standard_phase_AAAA_rejected[OF assms(1)]
    by (cases "standard_phase env (Some (ustr ''t'', ustr ''AAAA''))") auto
  from js_phase_no_runtime[OF assms(2)] s show ?thesis
    by (simp add: local_phases_def reroute_phase_def reroute_match_AAAA standard_match_AAAA)
qed

lemma redirect_page_no_toast: "accept_toast redirect_page = (redirect_page, False)"
  by (simp add: accept_toast_def redirect_page_def toast_marker_def ustr_def)

lemma redirect_page_marker: "re_search redirect_rx redirect_page \<noteq> None"
  by (simp add: redirect_page_def redirect_rx_def re_match_def ustr_def)

lemma redirect_page_body: "body_search redirect_page = Some (ustr ''A'')"
  by (simp add: body_search_def redirect_page_def body_rx_def cats_def re_match_def ustr_def
                ascii_lower_def)

lemma split_AAAA:
  "py_split (ustr ''#'') (ustr ''https://itty.bitty.site/#t/?AAAA'')
     = [ustr ''https://itty.bitty.site/'', ustr ''t/?AAAA'']"
  by (simp add: py_split_def ustr_def)

lemma page_B_no_toast:
  "accept_toast (ustr ''<body>B</body>'') = (ustr ''<body>B</body>'', False)"
  by (simp add: accept_toast_def toast_marker_def ustr_def)

lemma page_B_body: "body_search (ustr ''<body>B</body>'') = Some (ustr ''B'')"
  by (simp add: body_search_def body_rx_def cats_def re_match_def ustr_def ascii_lower_def)

lemma strip_letter: "py_strip (ustr ''A'') = ustr ''A''" "py_strip (ustr ''B'') = ustr ''B''"
  by (simp_all add: py_strip_def ustr_def is_space_def)

text \<open>
  C7, as the code has it. A page is searched for the redirect script after the overlay
  rewrite. Without the script there is one request and the body comes from that page.
  With the script, and a hashlink that has a \<open>#\<close>, exactly one further request is issued,
  to the versioned address built from the text between the first and the second \<open>#\<close>,
  with the same timeout. The body of the retried page, after the overlay rewrite, is
  returned with the label of the retry path when that page has status 200 and a body; when
  it has another status or no body, the body of the first page is returned with the plain
  label; when the retried request raises, the call fails.
\<close>

theorem C7_redirect_retries_once:
  assumes "local_phases env hashlink = (ev, None)"
    and "requests_get env 0 hashlink 10 = Inr resp" and "status_code resp = 200"
    and "accept_toast (resp_text resp) = (html, toast)"
  shows "(re_search redirect_rx html = None \<longrightarrow>
            gets (fst (decode_hashlink env hashlink)) = [(hashlink, 10)]
          \<and> snd (decode_hashlink env hashlink) =
              (case body_search html of
                 Some content \<Rightarrow> Document (py_strip content) ''Fail-safe (official site)''
               | None \<Rightarrow> Failure No_content ''Fail-safe (official site)''))
       \<and> (re_search redirect_rx html \<noteq> None
            \<and> py_split (ustr ''#'') hashlink = p # hash_part # ps \<longrightarrow>
            gets (fst (decode_hashlink env hashlink)) =
              [(hashlink, 10), (ustr ''https://itty.bitty.site/v1/#'' @ hash_part, 10)]
          \<and> (\<forall>rr content.
                requests_get env 1 (ustr ''https://itty.bitty.site/v1/#'' @ hash_part) 10 = Inr rr
                \<and> status_code rr = 200
                \<and> body_search (fst (accept_toast (resp_text rr))) = Some content \<longrightarrow>
                snd (decode_hashlink env hashlink) =
                  Document (py_strip content) ''Fail-safe (official site) (via v1 retry)'')
          \<and> (\<forall>rr.
                requests_get env 1 (ustr ''https://itty.bitty.site/v1/#'' @ hash_part) 10 = Inr rr
                \<and> (status_code rr \<noteq> 200
                     \<or> body_search (fst (accept_toast (resp_text rr))) = None) \<longrightarrow>
                snd (decode_hashlink env hashlink) =
                  (case body_search html of
                     Some content \<Rightarrow> Document (py_strip content) ''Fail-safe (official site)''
                   | None \<Rightarrow> Failure No_content ''Fail-safe (official site)''))
          \<and> (\<forall>e.
                requests_get env 1 (ustr ''https://itty.bitty.site/v1/#'' @ hash_part) 10 = Inl e \<longrightarrow>
                snd (decode_hashlink env hashlink) =
                  (if e = ConnectionError then Failure No_network ''Fail-safe (official site)''
                   else Failure (Fetch_failed e) ''Fail-safe (official site)'')))"
proof -
  let ?u = "ustr ''https://itty.bitty.site/v1/#'' @ hash_part"
  let ?initial = "case body_search html of
                 Some content \<Rightarrow> Document (py_strip content) ''Fail-safe (official site)''
               | None \<Rightarrow> Failure No_content ''Fail-safe (official site)''"
  note d = decode_hashlink_fetch[OF assms(1)]
  note b = fetch_body_page[OF assms(2,3,4)]
  have x: "snd (extract_initial html) = ?initial"
    by (simp add: extract_initial_def v_fetch_def split: option.splits)
  have g: "gets (fst (decode_hashlink env hashlink)) = gets (fst (fetch_body env hashlink))"
    using d(1) fetch_phase_gets_eq by simp
  have r: "snd (decode_hashlink env hashlink) =
     (case snd (fetch_body env hashlink) of
        Inr r \<Rightarrow> r
      | Inl e \<Rightarrow> if e = ConnectionError then Failure No_network v_fetch
                 else Failure (Fetch_failed e) v_fetch)"
    using d(2) fetch_phase_result by simp
  have plain: "gets (fst (decode_hashlink env hashlink)) = [(hashlink, 10)]
          \<and> snd (decode_hashlink env hashlink) = ?initial"
    if "re_search redirect_rx html = None"
    using that g r b x by simp
  have redirect: "gets (fst (decode_hashlink env hashlink)) = [(hashlink, 10), (?u, 10)]
          \<and> (\<forall>rr content.
                requests_get env 1 ?u 10 = Inr rr \<and> status_code rr = 200
                \<and> body_search (fst (accept_toast (resp_text rr))) = Some content \<longrightarrow>
                snd (decode_hashlink env hashlink) =
                  Document (py_strip content) ''Fail-safe (official site) (via v1 retry)'')
          \<and> (\<forall>rr.
                requests_get env 1 ?u 10 = Inr rr
                \<and> (status_code rr \<noteq> 200
                     \<or> body_search (fst (accept_toast (resp_text rr))) = None) \<longrightarrow>
                snd (decode_hashlink env hashlink) = ?initial)
          \<and> (\<forall>e. requests_get env 1 ?u 10 = Inl e \<longrightarrow>
                snd (decode_hashlink env hashlink) =
                  (if e = ConnectionError then Failure No_network ''Fail-safe (official site)''
                   else Failure (Fetch_failed e) ''Fail-safe (official site)''))"
    if m: "re_search redirect_rx html \<noteq> None"
      and s: "py_split (ustr ''#'') hashlink = p # hash_part # ps"
  proof -
    from s have u: "retry_url hashlink = Inr ?u" by (simp add: retry_url_def)
    have sb: "snd (fetch_body env hashlink) =
           (case snd (fetch_retry env hashlink) of
              Inl e \<Rightarrow> Inl e
            | Inr (Some r) \<Rightarrow> Inr r
            | Inr None \<Rightarrow> Inr ?initial)"
      unfolding x[symmetric] using b(2) m by simp
    have gb: "gets (fst (fetch_body env hashlink)) = (hashlink, 10) # gets (fst (fetch_retry env hashlink))"
      using b(1) m by simp
    have g1: "gets (fst (fetch_retry env hashlink)) = [(?u, 10)]"
    proof (cases "requests_get env 1 ?u 10")
      case (Inl e)
      from fetch_retry_raises(1)[OF u Inl] show ?thesis .
    next
      case (Inr rr)
      show ?thesis
      proof (cases "status_code rr = 200")
        case False
        from fetch_retry_bad_status(1)[OF u Inr False] show ?thesis .
      next
        case True
        show ?thesis
        proof (cases "body_search (fst (accept_toast (resp_text rr)))")
          case None
          from fetch_retry_no_body(1)[OF u Inr True None] show ?thesis .
        next
          case (Some content)
          from fetch_retry_body(1)[OF u Inr True Some] show ?thesis .
        qed
      qed
    qed
    have c1: "snd (decode_hashlink env hashlink) =
                  Document (py_strip content) ''Fail-safe (official site) (via v1 retry)''"
      if "requests_get env 1 ?u 10 = Inr rr" "status_code rr = 200"
        "body_search (fst (accept_toast (resp_text rr))) = Some content" for rr content
      using fetch_retry_body(2)[OF u that] r sb by (simp add: v_fetch_def)
    have c2: "snd (decode_hashlink env hashlink) = ?initial"
      if "requests_get env 1 ?u 10 = Inr rr"
        "status_code rr \<noteq> 200 \<or> body_search (fst (accept_toast (resp_text rr))) = None" for rr
    proof (cases "status_code rr = 200")
      case False
      from fetch_retry_bad_status(2)[OF u that(1) False] r sb show ?thesis by simp
    next
      case True
      with that(2) have "body_search (fst (accept_toast (resp_text rr))) = None" by simp
      from fetch_retry_no_body(2)[OF u that(1) True this] r sb show ?thesis by simp
    qed
    have c3: "snd (decode_hashlink env hashlink) =
                  (if e = ConnectionError then Failure No_network ''Fail-safe (official site)''
                   else Failure (Fetch_failed e) ''Fail-safe (official site)'')"
      if "requests_get env 1 ?u 10 = Inl e" for e
      using fetch_retry_raises(2)[OF u that] r sb by (simp add: v_fetch_def)
    from g gb g1 c1 c2 c3 show ?thesis by (simp only: simp_thms) blast
  qed
  from plain redirect show ?thesis by blast
qed

lemma local_phases_redirect_404:
  "\<exists>ev. local_phases env_redirect_404 (ustr ''https://itty.bitty.site/#t/?AAAA'') = (ev, None)"
proof -
  have "snd (local_phases env_redirect_404 (ustr ''https://itty.bitty.site/#t/?AAAA'')) = None"
    by (rule local_phases_AAAA_rejected) (simp_all add: env_redirect_404_def)
  then show ?thesis
    by (cases "local_phases env_redirect_404 (ustr ''https://itty.bitty.site/#t/?AAAA'')") auto
qed

lemma local_phases_redirect_ok:
  "\<exists>ev. local_phases env_redirect_ok (ustr ''https://itty.bitty.site/#t/?AAAA'') = (ev, None)"
proof -
  have "snd (local_phases env_redirect_ok (ustr ''https://itty.bitty.site/#t/?AAAA'')) = None"
    by (rule local_phases_AAAA_rejected) (simp_all add: env_redirect_ok_def)
  then show ?thesis
    by (cases "local_phases env_redirect_ok (ustr ''https://itty.bitty.site/#t/?AAAA'')") auto
qed

lemma retry_url_AAAA:
  "retry_url (ustr ''https://itty.bitty.site/#t/?AAAA'')
     = Inr (ustr ''https://itty.bitty.site/v1/#'' @ ustr ''t/?AAAA'')"
  by (simp add: retry_url_def split_AAAA)

lemma fetch_body_redirect_404:
  "gets (fst (fetch_body env_redirect_404 (ustr ''https://itty.bitty.site/#t/?AAAA'')))
     = [(ustr ''https://itty.bitty.site/#t/?AAAA'', 10),
        (ustr ''https://itty.bitty.site/v1/#'' @ ustr ''t/?AAAA'', 10)]"
  "snd (fetch_body env_redirect_404 (ustr ''https://itty.bitty.site/#t/?AAAA''))
     = Inr (Document (ustr ''A'') v_fetch)"
proof -
  let ?h = "ustr ''https://itty.bitty.site/#t/?AAAA''"
  let ?u = "ustr ''https://itty.bitty.site/v1/#'' @ ustr ''t/?AAAA''"
  have g0: "requests_get env_redirect_404 0 ?h 10 = Inr \<lparr>status_code = 200, resp_text = redirect_page\<rparr>"
    by (simp add: env_redirect_404_def)
  have g1: "requests_get env_redirect_404 1 ?u 10 = Inr \<lparr>status_code = 404, resp_text = []\<rparr>"
    by (simp add: env_redirect_404_def)
  have s: "status_code \<lparr>status_code = 200, resp_text = redirect_page\<rparr> = 200"
    and t: "accept_toast (resp_text \<lparr>status_code = 200, resp_text = redirect_page\<rparr>)
              = (redirect_page, False)"
    by (simp_all add: redirect_page_no_toast)
  have s1: "status_code \<lparr>status_code = 404, resp_text = []\<rparr> \<noteq> 200" by simp
  note b = fetch_body_page[OF g0 s t]
  note r = fetch_retry_bad_status[OF retry_url_AAAA g1 s1]
  have x: "snd (extract_initial redirect_page) = Document (ustr ''A'') v_fetch"
    by (simp add: extract_initial_def redirect_page_body strip_letter)
  show "gets (fst (fetch_body env_redirect_404 ?h)) = [(?h, 10), (?u, 10)]"
    using b(1) r(1) redirect_page_marker by simp
  show "snd (fetch_body env_redirect_404 ?h) = Inr (Document (ustr ''A'') v_fetch)"
    using b(2) r(2) redirect_page_marker x by simp
qed

theorem C7_failed_retry_returns_first_page_counterexample:
  "re_search redirect_rx redirect_page \<noteq> None
   \<and> requests_get env_redirect_404 0 (ustr ''https://itty.bitty.site/#t/?AAAA'') 10
       = Inr \<lparr>status_code = 200, resp_text = redirect_page\<rparr>
   \<and> gets (fst (decode_hashlink env_redirect_404 (ustr ''https://itty.bitty.site/#t/?AAAA'')))
       = [(ustr ''https://itty.bitty.site/#t/?AAAA'', 10),
          (ustr ''https://itty.bitty.site/v1/#'' @ ustr ''t/?AAAA'', 10)]
   \<and> snd (decode_hashlink env_redirect_404 (ustr ''https://itty.bitty.site/#t/?AAAA''))
       = Document (ustr ''A'') ''Fail-safe (official site)''"
proof -
  obtain ev where l: "local_phases env_redirect_404 (ustr ''https://itty.bitty.site/#t/?AAAA'')
                        = (ev, None)"
    using local_phases_redirect_404 by blast
  note d = decode_hashlink_fetch[OF l]
  have g0: "requests_get env_redirect_404 0 (ustr ''https://itty.bitty.site/#t/?AAAA'') 10
       = Inr \<lparr>status_code = 200, resp_text = redirect_page\<rparr>"
    by (simp add: env_redirect_404_def)
  have g: "gets (fst (decode_hashlink env_redirect_404 (ustr ''https://itty.bitty.site/#t/?AAAA'')))
       = [(ustr ''https://itty.bitty.site/#t/?AAAA'', 10),
          (ustr ''https://itty.bitty.site/v1/#'' @ ustr ''t/?AAAA'', 10)]"
    by (simp only: d(1) fetch_phase_gets_eq fetch_body_redirect_404(1))
  have r: "snd (decode_hashlink env_redirect_404 (ustr ''https://itty.bitty.site/#t/?AAAA''))
       = Document (ustr ''A'') ''Fail-safe (official site)''"
    by (simp only: d(2) fetch_phase_result fetch_body_redirect_404(2) sum.case v_fetch_def)
  show ?thesis
    by (intro conjI) (rule redirect_page_marker, rule g0, rule g, rule r)
qed

theorem C7_redirect_retries_once_witness:
  "requests_get env_redirect_ok 0 (ustr ''https://itty.bitty.site/#t/?AAAA'') 10
       = Inr \<lparr>status_code = 200, resp_text = redirect_page\<rparr>
   \<and> re_search redirect_rx redirect_page \<noteq> None
   \<and> py_split (ustr ''#'') (ustr ''https://itty.bitty.site/#t/?AAAA'')
       = [ustr ''https://itty.bitty.site/'', ustr ''t/?AAAA'']
   \<and> gets (fst (decode_hashlink env_redirect_ok (ustr ''https://itty.bitty.site/#t/?AAAA'')))
       = [(ustr ''https://itty.bitty.site/#t/?AAAA'', 10),
          (ustr ''https://itty.bitty.site/v1/#'' @ ustr ''t/?AAAA'', 10)]
   \<and> snd (decode_hashlink env_redirect_ok (ustr ''https://itty.bitty.site/#t/?AAAA''))
       = Document (ustr ''B'') ''Fail-safe (official site) (via v1 retry)''"
proof -
  let ?h = "ustr ''https://itty.bitty.site/#t/?AAAA''"
  let ?u = "ustr ''https://itty.bitty.site/v1/#'' @ ustr ''t/?AAAA''"
  obtain ev where l: "local_phases env_redirect_ok ?h = (ev, None)"
    using local_phases_redirect_ok by blast
  have g0: "requests_get env_redirect_ok 0 ?h 10
              = Inr \<lparr>status_code = 200, resp_text = redirect_page\<rparr>"
    by (simp add: env_redirect_ok_def)
  have g1: "requests_get env_redirect_ok 1 ?u 10
              = Inr \<lparr>status_code = 200, resp_text = ustr ''<body>B</body>''\<rparr>"
    by (simp add: env_redirect_ok_def)
  have s: "status_code \<lparr>status_code = 200, resp_text = redirect_page\<rparr> = 200"
    and t: "accept_toast (resp_text \<lparr>status_code = 200, resp_text = redirect_page\<rparr>)
              = (redirect_page, False)"
    by (simp_all add: redirect_page_no_toast)
  have b: "body_search (fst (accept_toast
             (resp_text \<lparr>status_code = 200, resp_text = ustr ''<body>B</body>''\<rparr>)))
           = Some (ustr ''B'')"
    by (simp add: page_B_no_toast page_B_body)
  note c = C7_redirect_retries_once[OF l g0 s t, of "ustr ''https://itty.bitty.site/''"
             "ustr ''t/?AAAA''" "[]", THEN conjunct2, THEN mp,
             OF conjI[OF redirect_page_marker split_AAAA]]
  note c1 = c[THEN conjunct2, THEN conjunct1, THEN spec, THEN spec, THEN mp,
              OF conjI[OF g1 conjI[OF _ b]]]
  have r: "snd (decode_hashlink env_redirect_ok ?h)
       = Document (ustr ''B'') ''Fail-safe (official site) (via v1 retry)''"
    using c1 by (simp add: strip_letter)
  show ?thesis
    by (intro conjI)
       (rule g0, rule redirect_page_marker, rule split_AAAA, rule c[THEN conjunct1], rule r)
qed

section \<open>What the reroute pattern recognises\<close>

lemma strip_prefix_append: "strip_prefix p (p @ s) = Some s"
  by (induction p) auto

lemma star_greedy_prefix:
  "\<forall>c \<in> set xs. P c \<Longrightarrow> star_greedy P k ys = Some v \<Longrightarrow> star_greedy P k (xs @ ys) = Some v"
  by (induction xs) auto

lemma star_greedy_total:
  "(\<And>s'. k s' \<noteq> None) \<Longrightarrow> star_greedy P k s = k (dropWhile P s)"
proof (induction s)
  case Nil
  show ?case by simp
next
  case (Cons c s)
  from Cons.IH[OF Cons.prems] Cons.prems[of "dropWhile P s"] show ?case
    by (auto split: option.splits)
qed

lemma cset_ok_fun: "cset_ok Dot = (\<lambda>x. x \<noteq> 10)" "cset_ok (Except c) = (\<lambda>x. x \<noteq> c)"
  by (rule ext, simp)+

lemma dropWhile_line:
  assumes "\<forall>c \<in> set xs. c \<noteq> (10::nat)" and "rest = [] \<or> hd rest = 10"
  shows "dropWhile (\<lambda>c. c \<noteq> 10) (xs @ rest) = rest"
proof -
  have "dropWhile (\<lambda>c. c \<noteq> 10) (xs @ rest) = dropWhile (\<lambda>c. c \<noteq> 10) rest"
    using assms(1) by (induction xs) auto
  also have "\<dots> = rest" using assms(2) by (cases rest) auto
  finally show ?thesis .
qed

text \<open>The capture group \<open>(.+)\<close> at the end of a pattern takes the rest of the line.\<close>

lemma capture_line:
  assumes "payload \<noteq> []" and "\<forall>c \<in> set payload. c \<noteq> 10" and "rest = [] \<or> hd rest = 10"
  shows "rxm (Grp (Plus Dot)) (\<lambda>g s'. rxm (Lit []) (\<lambda>g s'. Some (g, s')) g s') g (payload @ rest)
         = Some (g @ [payload], rest)"
proof -
  from assms(1) obtain p0 ps where p: "payload = p0 # ps" by (cases payload) auto
  with assms(2) have p0: "p0 \<noteq> 10" and ps: "\<forall>c \<in> set ps. c \<noteq> 10" by auto
  have "star_greedy (\<lambda>x. x \<noteq> 10)
          (\<lambda>s'. Some (g @ [take (length (p0 # ps @ rest) - length s') (p0 # ps @ rest)], s'))
          (ps @ rest)
        = Some (g @ [take (length (p0 # ps @ rest) - length rest) (p0 # ps @ rest)], rest)"
    by (subst star_greedy_total) (simp_all add: dropWhile_line[OF ps assms(3)])
  then show ?thesis using p p0 by (simp add: cset_ok_fun)
qed

text \<open>The end of the reroute pattern, from the optional slash on, at the five separators
  it admits.\<close>

lemma reroute_tail:
  assumes r: "\<And>g. rxm r k g (payload @ rest) = Some (g @ [payload], rest)"
    and sep: "sep \<in> {[], ustr ''/'', ustr ''#'', ustr ''//'', ustr ''/#''}"
  shows "star_greedy (cset_ok (Except 47))
           (rxm (Cat (Opt (Lit (ustr ''/'')))
                  (Cat (Opt (Alt (Lit (ustr ''#'')) (Lit (ustr ''/''))))
                    (Cat (Lit (ustr ''data:text/html;charset=utf-8;base64,'')) r))) k [])
           (sep @ ustr ''data:text/html;charset=utf-8;base64,'' @ payload @ rest)
         = Some ([payload], rest)"
proof -
  from sep consider "sep = []" | "sep = ustr ''/''" | "sep = ustr ''#''"
    | "sep = ustr ''//''" | "sep = ustr ''/#''" by auto
  then show ?thesis
  proof cases
    case 1
    then show ?thesis by (simp add: ustr_def r[of "[]", simplified])
  next
    case 2
    then show ?thesis by (simp add: ustr_def r[of "[]", simplified])
  next
    case 3
    then show ?thesis by (simp add: ustr_def r[of "[]", simplified])
  next
    case 4
    then show ?thesis by (simp add: ustr_def r[of "[]", simplified])
  next
    case 5
    then show ?thesis by (simp add: ustr_def r[of "[]", simplified])
  qed
qed

lemma rxm_lit_then: "rxm (Cat (Lit l) r) k g (l @ s) = rxm r k g s"
  by (simp add: strip_prefix_append)

lemma rxm_star_then: "rxm (Cat (Star c) r) k g s = star_greedy (cset_ok c) (rxm r k g) s"
  by simp

lemma rxm_hash_then:
  "star_greedy (cset_ok (Except 35)) (rxm (Cat (Lit [35]) r) k g) (35 # s) = rxm r k g s"
  by simp

lemma reroute_match_shape:
  assumes pre: "\<forall>c \<in> set pre. c \<noteq> 35"
    and title: "\<forall>c \<in> set title. c \<noteq> 47"
    and sep: "sep \<in> {[], ustr ''/'', ustr ''#'', ustr ''//'', ustr ''/#''}"
    and payload: "payload \<noteq> []" "\<forall>c \<in> set payload. c \<noteq> 10"
    and rest: "rest = [] \<or> hd rest = 10"
  shows "reroute_match
           (ustr ''https://itty.bitty.site/'' @ pre @ ustr ''#'' @ title @ sep
              @ ustr ''data:text/html;charset=utf-8;base64,'' @ payload @ rest)
         = Some payload"
proof -
  let ?K = "\<lambda>(g::pystr list) (s'::pystr). Some (g, s')"
  let ?last = "Cat (Grp (Plus Dot)) (Lit [])"
  let ?tail = "Cat (Opt (Lit (ustr ''/'')))
                  (Cat (Opt (Alt (Lit (ustr ''#'')) (Lit (ustr ''/''))))
                    (Cat (Lit (ustr ''data:text/html;charset=utf-8;base64,'')) ?last))"
  let ?after = "title @ sep @ ustr ''data:text/html;charset=utf-8;base64,'' @ payload @ rest"
  have c: "\<And>g. rxm ?last ?K g (payload @ rest) = Some (g @ [payload], rest)"
    using capture_line[OF payload rest] by simp
  have t: "star_greedy (cset_ok (Except 47)) (rxm ?tail ?K [])
             (sep @ ustr ''data:text/html;charset=utf-8;base64,'' @ payload @ rest)
           = Some ([payload], rest)"
    by (rule reroute_tail[OF c sep])
  have p47: "\<forall>c \<in> set title. cset_ok (Except 47) c" using title by simp
  have p35: "\<forall>c \<in> set pre. cset_ok (Except 35) c" using pre by simp
  have t': "rxm (Cat (Star (Except 47)) ?tail) ?K [] ?after = Some ([payload], rest)"
    unfolding rxm_star_then by (rule star_greedy_prefix[OF p47 t])
  have h: "star_greedy (cset_ok (Except 35))
             (rxm (Cat (Lit [35]) (Cat (Star (Except 47)) ?tail)) ?K [])
             (35 # ?after) = Some ([payload], rest)"
    unfolding rxm_hash_then by (rule t')
  have h': "rxm (Cat (Star (Except 35)) (Cat (Lit [35]) (Cat (Star (Except 47)) ?tail))) ?K []
             (pre @ 35 # ?after) = Some ([payload], rest)"
    unfolding rxm_star_then by (rule star_greedy_prefix[OF p35 h])
  have rx: "reroute_rx =
      Cat (Lit (ustr ''https://itty.bitty.site/''))
        (Cat (Star (Except 35)) (Cat (Lit [35]) (Cat (Star (Except 47)) ?tail)))"
    by (simp add: reroute_rx_def cats_def ustr_def)
  have hash: "ustr ''#'' @ ?after = 35 # ?after" by (simp add: ustr_def)
  have "re_match reroute_rx (ustr ''https://itty.bitty.site/'' @ pre @ ustr ''#'' @ ?after)
          = Some ([payload], rest)"
    unfolding re_match_def rx hash rxm_lit_then by (rule h')
  then show ?thesis by (simp add: reroute_match_def)
qed

lemma reroute_match_question_mark:
  "reroute_match
     (ustr ''https://itty.bitty.site/#t/?data:text/html;charset=utf-8;base64,aGVsbG8='') = None"
  by (simp add: reroute_match_def reroute_rx_def re_match_def cats_def ustr_def)

text \<open>
  C9, as the code has it. The reroute pattern recognises a hashlink that starts with
  \<^verbatim>\<open>https://itty.bitty.site/\<close>, goes on without \<open>#\<close> up to a \<open>#\<close>, has a title without a
  slash, then nothing, \<open>/\<close>, \<open>#\<close>, \<open>//\<close> or \<open>/#\<close>, then the marker
  \<^verbatim>\<open>data:text/html;charset=utf-8;base64,\<close> and a payload that is not empty; the payload
  extracted is the text behind the marker up to the end of its line. A \<open>?\<close> between the
  slash and the marker is not part of the pattern. Matching never fails otherwise than
  by the answer \<open>None\<close>, after which strategy 1 is passed over.
\<close>

theorem C9_reroute_shape_recognised:
  assumes "\<forall>c \<in> set pre. c \<noteq> 35"
    and "\<forall>c \<in> set title. c \<noteq> 47"
    and "sep \<in> {[], ustr ''/'', ustr ''#'', ustr ''//'', ustr ''/#''}"
    and "payload \<noteq> []" and "\<forall>c \<in> set payload. c \<noteq> 10"
    and "rest = [] \<or> hd rest = 10"
  shows "reroute_match
           (ustr ''https://itty.bitty.site/'' @ pre @ ustr ''#'' @ title @ sep
              @ ustr ''data:text/html;charset=utf-8;base64,'' @ payload @ rest)
         = Some payload
       \<and> (reroute_match hashlink = None \<longrightarrow> reroute_phase hashlink = None)"
  using reroute_match_shape[OF assms] by (simp add: reroute_phase_def)

theorem C9_reroute_shape_recognised_witness:
  "reroute_match
     (ustr ''https://itty.bitty.site/'' @ [] @ ustr ''#'' @ ustr ''t'' @ ustr ''/''
        @ ustr ''data:text/html;charset=utf-8;base64,'' @ ustr ''aGVsbG8='' @ [])
   = Some (ustr ''aGVsbG8='')
   \<and> ustr ''https://itty.bitty.site/'' @ [] @ ustr ''#'' @ ustr ''t'' @ ustr ''/''
        @ ustr ''data:text/html;charset=utf-8;base64,'' @ ustr ''aGVsbG8='' @ []
     = ustr ''https://itty.bitty.site/#t/data:text/html;charset=utf-8;base64,aGVsbG8=''
   \<and> reroute_match
       (ustr ''https://itty.bitty.site/#t/?data:text/html;charset=utf-8;base64,aGVsbG8='') = None
   \<and> reroute_phase
       (ustr ''https://itty.bitty.site/#t/?data:text/html;charset=utf-8;base64,aGVsbG8='') = None"
proof -
  have 1: "\<forall>c \<in> set ([]::pystr). c \<noteq> 35" by simp
  have 2: "\<forall>c \<in> set (ustr ''t''). c \<noteq> 47" by (simp add: ustr_def)
  have 3: "ustr ''/'' \<in> {[], ustr ''/'', ustr ''#'', ustr ''//'', ustr ''/#''}" by simp
  have 4: "ustr ''aGVsbG8='' \<noteq> []" by (simp add: ustr_def)
  have 5: "\<forall>c \<in> set (ustr ''aGVsbG8=''). c \<noteq> 10" by (simp add: ustr_def)
  have 6: "([]::pystr) = [] \<or> hd ([]::pystr) = 10" by simp
  note w = C9_reroute_shape_recognised[OF 1 2 3 4 5 6, THEN conjunct1]
  note n = C9_reroute_shape_recognised[OF 1 2 3 4 5 6, THEN conjunct2, THEN mp,
             OF reroute_match_question_mark]
  have e: "ustr ''https://itty.bitty.site/'' @ [] @ ustr ''#'' @ ustr ''t'' @ ustr ''/''
        @ ustr ''data:text/html;charset=utf-8;base64,'' @ ustr ''aGVsbG8='' @ []
     = ustr ''https://itty.bitty.site/#t/data:text/html;charset=utf-8;base64,aGVsbG8=''"
    by (simp add: ustr_def)
  show ?thesis
    by (intro conjI) (rule w, rule e, rule reroute_match_question_mark, rule n)
qed

theorem C9_question_mark_separator_counterexample:
  "reroute_match
     (ustr ''https://itty.bitty.site/#t/?data:text/html;charset=utf-8;base64,aGVsbG8='') = None"
  by (rule reroute_match_question_mark)

section \<open>Which failures are swallowed, for every input\<close>

text \<open>Where an exception of the body of strategy 3 comes from.\<close>

lemma js_try_raises:
  "execjs_compile env = Some e \<Longrightarrow> snd (js_try env h sm) = Inl e"
  "execjs_compile env = None \<Longrightarrow> js_payload h sm = Inr p \<Longrightarrow>
     b64decode (pad_to_quad p) = Inl e \<Longrightarrow> snd (js_try env h sm) = Inl e"
  "execjs_compile env = None \<Longrightarrow> js_payload h sm = Inr p \<Longrightarrow>
     b64decode (pad_to_quad p) = Inr c \<Longrightarrow> execjs_eval env c = Inl e \<Longrightarrow>
     snd (js_try env h sm) = Inl e"
  "execjs_compile env = None \<Longrightarrow> js_payload h sm = Inr p \<Longrightarrow>
     b64decode (pad_to_quad p) = Inr c \<Longrightarrow> execjs_eval env c = Inr (JsBytes bs) \<Longrightarrow>
     utf8_decode bs = None \<Longrightarrow> snd (js_try env h sm) = Inl UnicodeDecodeError"
  by (simp_all add: js_try_def js_decode_def)

lemma s2_exhausted_falls_through:
  assumes "\<forall>x. lzma_decompress env x \<noteq> Inl BinasciiError" and "s2_exhausted env h"
  shows "snd (standard_phase env (standard_match h)) = Fallthrough"
proof (cases "standard_match h")
  case None
  then show ?thesis by (simp add: standard_phase_def)
next
  case (Some tb)
  obtain title b where tb: "tb = (title, b)" by (cases tb)
  from assms(2) Some tb
  have "list_all (\<lambda>pk. swallowed (candidate env b pk)) combinations"
    by (simp add: s2_exhausted_def)
  then have "find (\<lambda>pk. \<not> swallowed (candidate env b pk)) combinations = None"
    by (simp add: find_None_iff list_all_iff)
  then have "first_settled env b combinations = Fallthrough" by (simp add: first_settled_def)
  with standard_phase_first_settled[OF assms(1), of title b] Some tb show ?thesis by simp
qed

lemma standard_phase_only_its_entries:
  assumes "standard_phase env sm = (ev, f)"
  shows "Info_js_attempt \<notin> set ev \<and> Info_fetch_attempt \<notin> set ev"
proof -
  from standard_phase_log[OF assms] have "\<forall>e \<in> set ev. phase_of e = 2" by simp
  then show ?thesis by fastforce
qed

lemma js_phase_only_its_entries:
  assumes "js_phase env h sm = (ev, f)"
  shows "Info_fetch_attempt \<notin> set ev"
proof -
  from js_phase_log[OF assms] have "\<forall>e \<in> set ev. phase_of e = 3" by simp
  then show ?thesis by fastforce
qed

text \<open>An exception that leaves strategy 2 ends the call.\<close>

lemma standard_raise_is_terminal:
  assumes "reroute_match h = None"
    and "snd (standard_phase env (standard_match h)) = Raise e"
  shows "snd (decode_hashlink env h) = Failure (Unexpected e) v_standard
       \<and> Info_js_attempt \<notin> set (fst (decode_hashlink env h))
       \<and> Info_fetch_attempt \<notin> set (fst (decode_hashlink env h))"
proof -
  from assms(1) have rp: "reroute_phase h = None" by (simp add: reroute_phase_def)
  obtain ev where s: "standard_phase env (standard_match h) = (ev, Raise e)"
    using assms(2) by (cases "standard_phase env (standard_match h)") auto
  from s rp have "decode_hashlink env h
      = (Info_start # ev @ [Error_unexpected e], Failure (Unexpected e) v_standard)"
    by (simp add: decode_hashlink_def local_phases_def)
  with standard_phase_only_its_entries[OF s] show ?thesis by simp
qed

text \<open>What strategy 3 does with the outcome of its body, once strategy 2 has fallen
  through.\<close>

lemma js_outcome:
  assumes "reroute_match h = None"
    and "snd (standard_phase env (standard_match h)) = Fallthrough"
  shows "Info_js_attempt \<in> set (fst (decode_hashlink env h))"
    and "snd (js_try env h (standard_match h)) = Inl e \<Longrightarrow> e = ExecjsError \<or> e = BinasciiError \<Longrightarrow>
           Error_js_failed e \<in> set (fst (decode_hashlink env h))
         \<and> Info_fetch_attempt \<in> set (fst (decode_hashlink env h))
         \<and> snd (decode_hashlink env h) = snd (fetch_phase env h)"
    and "snd (js_try env h (standard_match h)) = Inl e \<Longrightarrow> e \<noteq> ExecjsError \<Longrightarrow> e \<noteq> BinasciiError \<Longrightarrow>
           snd (decode_hashlink env h) = Failure (Unexpected e) v_js
         \<and> Info_fetch_attempt \<notin> set (fst (decode_hashlink env h))"
    and "snd (js_try env h (standard_match h)) = Inr None \<Longrightarrow>
           Info_fetch_attempt \<in> set (fst (decode_hashlink env h))
         \<and> snd (decode_hashlink env h) = snd (fetch_phase env h)"
proof -
  from assms(1) have rp: "reroute_phase h = None" by (simp add: reroute_phase_def)
  obtain ev2 where s: "standard_phase env (standard_match h) = (ev2, Fallthrough)"
    using assms(2) by (cases "standard_phase env (standard_match h)") auto
  note n2 = standard_phase_only_its_entries[OF s]
  obtain ev3 f3 where j: "js_phase env h (standard_match h) = (ev3, f3)"
    by (cases "js_phase env h (standard_match h)")
  note n3 = js_phase_only_its_entries[OF j]
  obtain ev4 r4 where f: "fetch_phase env h = (ev4, r4)" by (cases "fetch_phase env h")
  note s4 = fetch_phase_starts[OF f]
  obtain evt where t: "js_try env h (standard_match h) = (evt, snd (js_try env h (standard_match h)))"
    by (cases "js_try env h (standard_match h)") auto
  show "Info_js_attempt \<in> set (fst (decode_hashlink env h))"
    using js_phase_starts[OF j] s rp j f
    by (cases f3) (auto simp: decode_hashlink_def local_phases_def)
  show "Error_js_failed e \<in> set (fst (decode_hashlink env h))
         \<and> Info_fetch_attempt \<in> set (fst (decode_hashlink env h))
         \<and> snd (decode_hashlink env h) = snd (fetch_phase env h)"
    if "snd (js_try env h (standard_match h)) = Inl e" "e = ExecjsError \<or> e = BinasciiError"
  proof -
    from t that have "js_phase env h (standard_match h)
        = (Info_js_attempt # evt @ [Error_js_failed e], Fallthrough)"
      by (auto simp: js_phase_def)
    with s rp f s4 show ?thesis by (simp add: decode_hashlink_def local_phases_def)
  qed
  show "snd (decode_hashlink env h) = Failure (Unexpected e) v_js
         \<and> Info_fetch_attempt \<notin> set (fst (decode_hashlink env h))"
    if "snd (js_try env h (standard_match h)) = Inl e" "e \<noteq> ExecjsError" "e \<noteq> BinasciiError"
  proof -
    from t that have "js_phase env h (standard_match h) = (Info_js_attempt # evt, Raise e)"
      by (auto simp: js_phase_def)
    with j have e3: "ev3 = Info_js_attempt # evt" "f3 = Raise e" by simp_all
    with s rp j have "decode_hashlink env h
        = (Info_start # ev2 @ ev3 @ [Error_unexpected e], Failure (Unexpected e) v_js)"
      by (simp add: decode_hashlink_def local_phases_def)
    with n2 n3 show ?thesis by simp
  qed
  show "Info_fetch_attempt \<in> set (fst (decode_hashlink env h))
         \<and> snd (decode_hashlink env h) = snd (fetch_phase env h)"
    if "snd (js_try env h (standard_match h)) = Inr None"
  proof -
    from t that have "js_phase env h (standard_match h) = (Info_js_attempt # evt, Fallthrough)"
      by (auto simp: js_phase_def)
    with s rp f s4 show ?thesis by (simp add: decode_hashlink_def local_phases_def)
  qed
qed

text \<open>
  C5, as the code has it, for every hashlink that the reroute pattern does not match.
  Strategy 2 swallows \<open>binascii.Error\<close> and \<open>lzma.LZMAError\<close> only: at its first
  candidate that is not such a failure, any other exception of \<open>b64decode\<close> or
  \<open>lzma.decompress\<close>, and the failure to decode decompressed bytes as UTF-8, ends the call
  with a terminal failure under the label of strategy 2, and neither strategy 3 nor the
  fetch is attempted. When strategy 2 is not entered or all its candidates are swallowed
  failures, strategy 3 is attempted; it swallows and logs \<open>execjs.Error\<close> and
  \<open>binascii.Error\<close> only, after which the fetch is attempted and decides the result,
  and any other exception of its body ends the call with a terminal failure under the
  label of strategy 3, the fetch not being attempted. The exceptions of that body are
  those of \<open>execjs.compile\<close>, of \<open>b64decode\<close> on the padded payload, of the script and of
  decoding its bytes. The LZMA library raises no \<open>binascii.Error\<close>.
\<close>

theorem C5_handled_failures_swallowed_others_terminal:
  assumes "reroute_match hashlink = None"
    and "\<forall>x. lzma_decompress env x \<noteq> Inl BinasciiError"
  shows "(standard_match hashlink = Some (title, b64_part)
          \<and> find (\<lambda>pk. \<not> swallowed (candidate env b64_part pk)) combinations = Some pk \<longrightarrow>
            (candidate env b64_part pk = Inl e \<longrightarrow>
               snd (decode_hashlink env hashlink) = Failure (Unexpected e) ''IBS v1 / PvtPpr v1''
             \<and> Info_js_attempt \<notin> set (fst (decode_hashlink env hashlink))
             \<and> Info_fetch_attempt \<notin> set (fst (decode_hashlink env hashlink)))
          \<and> (candidate env b64_part pk = Inr d \<and> utf8_decode d = None \<longrightarrow>
               snd (decode_hashlink env hashlink)
                 = Failure (Unexpected UnicodeDecodeError) ''IBS v1 / PvtPpr v1''
             \<and> Info_js_attempt \<notin> set (fst (decode_hashlink env hashlink))
             \<and> Info_fetch_attempt \<notin> set (fst (decode_hashlink env hashlink))))
       \<and> (s2_exhausted env hashlink \<longrightarrow>
            Info_js_attempt \<in> set (fst (decode_hashlink env hashlink))
          \<and> (snd (js_try env hashlink (standard_match hashlink)) = Inl x
               \<and> (x = ExecjsError \<or> x = BinasciiError) \<longrightarrow>
               Error_js_failed x \<in> set (fst (decode_hashlink env hashlink))
             \<and> Info_fetch_attempt \<in> set (fst (decode_hashlink env hashlink))
             \<and> snd (decode_hashlink env hashlink) = snd (fetch_phase env hashlink))
          \<and> (snd (js_try env hashlink (standard_match hashlink)) = Inl x
               \<and> x \<noteq> ExecjsError \<and> x \<noteq> BinasciiError \<longrightarrow>
               snd (decode_hashlink env hashlink) = Failure (Unexpected x) ''PvtPpr v0 (JS worker)''
             \<and> Info_fetch_attempt \<notin> set (fst (decode_hashlink env hashlink))))
       \<and> (execjs_compile env = Some x \<longrightarrow> snd (js_try env hashlink sm) = Inl x)
       \<and> (execjs_compile env = None \<and> js_payload hashlink sm = Inr p \<longrightarrow>
            (b64decode (pad_to_quad p) = Inl x \<longrightarrow> snd (js_try env hashlink sm) = Inl x)
          \<and> (b64decode (pad_to_quad p) = Inr c \<and> execjs_eval env c = Inl x \<longrightarrow>
               snd (js_try env hashlink sm) = Inl x)
          \<and> (b64decode (pad_to_quad p) = Inr c \<and> execjs_eval env c = Inr (JsBytes bs)
               \<and> utf8_decode bs = None \<longrightarrow>
               snd (js_try env hashlink sm) = Inl UnicodeDecodeError))"
proof -
  have a: "snd (decode_hashlink env hashlink) = Failure (Unexpected y) ''IBS v1 / PvtPpr v1''
             \<and> Info_js_attempt \<notin> set (fst (decode_hashlink env hashlink))
             \<and> Info_fetch_attempt \<notin> set (fst (decode_hashlink env hashlink))"
    if sm: "standard_match hashlink = Some (title, b64_part)"
      and f: "find (\<lambda>pk. \<not> swallowed (candidate env b64_part pk)) combinations = Some pk"
      and st: "settle (candidate env b64_part pk) = Raise y" for y
  proof -
    from f st have "first_settled env b64_part combinations = Raise y"
      by (simp add: first_settled_def)
    with standard_phase_first_settled[OF assms(2), of title b64_part] sm
    have "snd (standard_phase env (standard_match hashlink)) = Raise y" by simp
    from standard_raise_is_terminal[OF assms(1) this] show ?thesis by (simp add: v_standard_def)
  qed
  have a1: "snd (decode_hashlink env hashlink) = Failure (Unexpected e) ''IBS v1 / PvtPpr v1''
             \<and> Info_js_attempt \<notin> set (fst (decode_hashlink env hashlink))
             \<and> Info_fetch_attempt \<notin> set (fst (decode_hashlink env hashlink))"
    if "standard_match hashlink = Some (title, b64_part)"
      "find (\<lambda>pk. \<not> swallowed (candidate env b64_part pk)) combinations = Some pk"
      "candidate env b64_part pk = Inl e"
    using a[OF that(1,2), of e] that(3) by (simp add: settle_def)
  have a2: "snd (decode_hashlink env hashlink)
                 = Failure (Unexpected UnicodeDecodeError) ''IBS v1 / PvtPpr v1''
             \<and> Info_js_attempt \<notin> set (fst (decode_hashlink env hashlink))
             \<and> Info_fetch_attempt \<notin> set (fst (decode_hashlink env hashlink))"
    if "standard_match hashlink = Some (title, b64_part)"
      "find (\<lambda>pk. \<not> swallowed (candidate env b64_part pk)) combinations = Some pk"
      "candidate env b64_part pk = Inr d" "utf8_decode d = None"
    using a[OF that(1,2), of UnicodeDecodeError] that(3,4) by (simp add: settle_def)
  have b: "Info_js_attempt \<in> set (fst (decode_hashlink env hashlink))
          \<and> (snd (js_try env hashlink (standard_match hashlink)) = Inl x
               \<and> (x = ExecjsError \<or> x = BinasciiError) \<longrightarrow>
               Error_js_failed x \<in> set (fst (decode_hashlink env hashlink))
             \<and> Info_fetch_attempt \<in> set (fst (decode_hashlink env hashlink))
             \<and> snd (decode_hashlink env hashlink) = snd (fetch_phase env hashlink))
          \<and> (snd (js_try env hashlink (standard_match hashlink)) = Inl x
               \<and> x \<noteq> ExecjsError \<and> x \<noteq> BinasciiError \<longrightarrow>
               snd (decode_hashlink env hashlink) = Failure (Unexpected x) ''PvtPpr v0 (JS worker)''
             \<and> Info_fetch_attempt \<notin> set (fst (decode_hashlink env hashlink)))"
    if ex: "s2_exhausted env hashlink"
  proof -
    note ft = s2_exhausted_falls_through[OF assms(2) ex]
    note o = js_outcome[OF assms(1) ft]
    from o(1) o(2)[of x] o(3)[of x] show ?thesis by (simp add: v_js_def)
  qed
  note c = js_try_raises[where env=env and h=hashlink and sm=sm]
  from a1 a2 b c show ?thesis by blast
qed

lemma find_settled_ff:
  "find (\<lambda>pk. \<not> swallowed (candidate env_lzma_ff (ustr ''XQAAAAT//////////wB/wfv////gAAAA'') pk))
        combinations = Some (0, 0)"
  by (simp only: combinations_list find.simps candidate_ff swallowed_def) simp

lemma env_lzma_ff_no_binascii: "\<forall>x. lzma_decompress env_lzma_ff x \<noteq> Inl BinasciiError"
  by (simp add: env_lzma_ff_def)

lemma utf8_decode_ff: "utf8_decode [255] = None"
  by (simp add: utf8_decode_def)

text \<open>The hashlink that consists of the one letter U+00E9.\<close>

lemma reroute_match_e_acute: "reroute_match [233] = None"
  by (simp add: reroute_match_def reroute_rx_def re_match_def cats_def ustr_def)

lemma standard_match_e_acute: "standard_match [233] = None"
  by (simp add: standard_match_def standard_rx_def re_match_def cats_def ustr_def)

lemma js_payload_e_acute: "js_payload [233] None = Inr [233]"
  by (simp add: js_payload_def py_split_def index_last_def ustr_def)

lemma b64decode_e_acute: "b64decode (pad_to_quad [233]) = Inl ValueError"
  by (simp add: b64decode_def pad_to_quad_def)

lemma env_js_fails_facts:
  "\<forall>x. lzma_decompress env_js_fails x \<noteq> Inl BinasciiError"
  "execjs_compile env_js_fails = None"
  by (simp_all add: env_js_fails_def)

lemma s2_exhausted_e_acute: "s2_exhausted env_js_fails [233]"
  by (simp add: s2_exhausted_def standard_match_e_acute)

lemma candidate_AAAA_offline: "candidate env_offline (ustr ''AAAA'') pk = Inl LZMAError"
  by (simp add: candidate_def b64decode_AAAA env_offline_def)

lemma s2_exhausted_AAAA: "s2_exhausted env_offline (ustr ''https://itty.bitty.site/#t/?AAAA'')"
  by (simp add: s2_exhausted_def standard_match_AAAA candidate_AAAA_offline swallowed_def
                list_all_iff)

lemma env_offline_facts:
  "\<forall>x. lzma_decompress env_offline x \<noteq> Inl BinasciiError"
  "execjs_compile env_offline = Some ExecjsError"
  by (simp_all add: env_offline_def)

theorem C5_handled_failures_swallowed_others_terminal_witness:
  "(reroute_match (ustr ''https://itty.bitty.site/#t/?XQAAAAT//////////wB/wfv////gAAAA'') = None
    \<and> candidate env_lzma_ff (ustr ''XQAAAAT//////////wB/wfv////gAAAA'') (0, 0) = Inr [255]
    \<and> utf8_decode [255] = None
    \<and> snd (decode_hashlink env_lzma_ff
             (ustr ''https://itty.bitty.site/#t/?XQAAAAT//////////wB/wfv////gAAAA''))
        = Failure (Unexpected UnicodeDecodeError) ''IBS v1 / PvtPpr v1''
    \<and> Info_js_attempt \<notin> set (fst (decode_hashlink env_lzma_ff
             (ustr ''https://itty.bitty.site/#t/?XQAAAAT//////////wB/wfv////gAAAA'')))
    \<and> Info_fetch_attempt \<notin> set (fst (decode_hashlink env_lzma_ff
             (ustr ''https://itty.bitty.site/#t/?XQAAAAT//////////wB/wfv////gAAAA''))))
   \<and> (reroute_match [233] = None
    \<and> s2_exhausted env_js_fails [233]
    \<and> b64decode (pad_to_quad [233]) = Inl ValueError
    \<and> snd (js_try env_js_fails [233] (standard_match [233])) = Inl ValueError
    \<and> Info_js_attempt \<in> set (fst (decode_hashlink env_js_fails [233]))
    \<and> snd (decode_hashlink env_js_fails [233])
        = Failure (Unexpected ValueError) ''PvtPpr v0 (JS worker)''
    \<and> Info_fetch_attempt \<notin> set (fst (decode_hashlink env_js_fails [233])))
   \<and> (reroute_match (ustr ''https://itty.bitty.site/#t/?AAAA'') = None
    \<and> s2_exhausted env_offline (ustr ''https://itty.bitty.site/#t/?AAAA'')
    \<and> snd (js_try env_offline (ustr ''https://itty.bitty.site/#t/?AAAA'')
              (standard_match (ustr ''https://itty.bitty.site/#t/?AAAA''))) = Inl ExecjsError
    \<and> Error_js_failed ExecjsError
        \<in> set (fst (decode_hashlink env_offline (ustr ''https://itty.bitty.site/#t/?AAAA'')))
    \<and> Info_fetch_attempt
        \<in> set (fst (decode_hashlink env_offline (ustr ''https://itty.bitty.site/#t/?AAAA'')))
    \<and> snd (decode_hashlink env_offline (ustr ''https://itty.bitty.site/#t/?AAAA''))
        = snd (fetch_phase env_offline (ustr ''https://itty.bitty.site/#t/?AAAA'')))"
proof -
  note t1 = C5_handled_failures_swallowed_others_terminal
              [OF reroute_match_ff env_lzma_ff_no_binascii]
  note w1 = t1[THEN conjunct1, THEN mp, OF conjI[OF standard_match_ff find_settled_ff],
               THEN conjunct2, THEN mp, OF conjI[OF candidate_ff utf8_decode_ff]]
  note t2 = C5_handled_failures_swallowed_others_terminal
              [OF reroute_match_e_acute env_js_fails_facts(1)]
  note b2 = t2[THEN conjunct2, THEN conjunct1, THEN mp, OF s2_exhausted_e_acute]
  note d2 = t2[THEN conjunct2, THEN conjunct2, THEN conjunct2, THEN mp,
               OF conjI[OF env_js_fails_facts(2) js_payload_e_acute],
               THEN conjunct1, THEN mp, OF b64decode_e_acute]
  have j2: "snd (js_try env_js_fails [233] (standard_match [233])) = Inl ValueError"
    using d2 by (simp only: standard_match_e_acute)
  have ne: "ValueError \<noteq> ExecjsError \<and> ValueError \<noteq> BinasciiError" by simp
  note w2 = b2[THEN conjunct2, THEN conjunct2, THEN mp, OF conjI[OF j2 ne]]
  note t3 = C5_handled_failures_swallowed_others_terminal
              [OF reroute_match_AAAA env_offline_facts(1)]
  note b3 = t3[THEN conjunct2, THEN conjunct1, THEN mp, OF s2_exhausted_AAAA]
  note j3 = t3[THEN conjunct2, THEN conjunct2, THEN conjunct1, THEN mp, OF env_offline_facts(2),
               of "standard_match (ustr ''https://itty.bitty.site/#t/?AAAA'')"]
  have eq: "ExecjsError = ExecjsError \<or> ExecjsError = BinasciiError" by simp
  note w3 = b3[THEN conjunct2, THEN conjunct1, THEN mp, OF conjI[OF j3 eq]]
  show ?thesis
    by (intro conjI)
       (rule reroute_match_ff candidate_ff utf8_decode_ff w1[THEN conjunct1]
             w1[THEN conjunct2, THEN conjunct1] w1[THEN conjunct2, THEN conjunct2]
             reroute_match_e_acute s2_exhausted_e_acute b64decode_e_acute j2
             b2[THEN conjunct1] w2[THEN conjunct1] w2[THEN conjunct2]
             reroute_match_AAAA s2_exhausted_AAAA j3
             w3[THEN conjunct1] w3[THEN conjunct2, THEN conjunct1]
             w3[THEN conjunct2, THEN conjunct2])+
qed

section \<open>Strategy 3 on a hashlink that is in no known shape\<close>













section \<open>The round trip of a composed hashlink\<close>

subsection \<open>UTF-8: decoding what was encoded\<close>

lemma unat_byte_of_nat: "n < 256 \<Longrightarrow> unat (of_nat n :: byte) = n"
  by (simp add: unat_of_nat)

lemma utf8_dec_enc1_1:
  assumes "c < 128"
  shows "utf8_dec (c # r) = map_option (Cons c) (utf8_dec r)"
  using assms by simp

lemma utf8_dec_enc1_2:
  assumes "\<not> c < 128" "c < 2048"
  shows "utf8_dec ((192 + c div 64) # (128 + c mod 64) # r) = map_option (Cons c) (utf8_dec r)"
proof -
  have 1: "192 + c div 64 < 224" using assms by simp
  have 3: "is_cont (128 + c mod 64)" by (simp add: is_cont_def)
  show ?thesis using assms 1 by (simp add: 3 Let_def)
qed

lemma split_4096: "c div 4096 * 4096 + c div 64 mod 64 * 64 + c mod 64 = (c::nat)"
proof -
  have "c div 64 div 64 = c div 4096" by (simp add: div_mult2_eq[symmetric])
  with div_mult_mod_eq[of "c div 64" 64]
  have "c div 64 = c div 4096 * 64 + c div 64 mod 64" by simp
  then have "c div 64 * 64 = c div 4096 * 4096 + c div 64 mod 64 * 64" by simp
  with div_mult_mod_eq[of c 64] show ?thesis by simp
qed

lemma utf8_dec_enc1_3:
  assumes "\<not> c < 2048" "c < 65536" "\<not> (55296 \<le> c \<and> c \<le> 57343)"
  shows "utf8_dec ((224 + c div 4096) # (128 + c div 64 mod 64) # (128 + c mod 64) # r)
         = map_option (Cons c) (utf8_dec r)"
proof -
  have 1: "224 + c div 4096 < 240" using assms by simp
  have 3: "is_cont (128 + c mod 64)" "is_cont (128 + c div 64 mod 64)" by (simp_all add: is_cont_def)
  show ?thesis using assms 1
    by (simp add: split_4096 3 Let_def)
qed

lemma split_262144:
  "c div 262144 * 262144 + c div 4096 mod 64 * 4096 + c div 64 mod 64 * 64 + c mod 64 = (c::nat)"
proof -
  have "c div 4096 div 64 = c div 262144" by (simp add: div_mult2_eq[symmetric])
  with div_mult_mod_eq[of "c div 4096" 64]
  have "c div 4096 = c div 262144 * 64 + c div 4096 mod 64" by simp
  then have "c div 4096 * 4096 = c div 262144 * 262144 + c div 4096 mod 64 * 4096" by simp
  with split_4096[of c] show ?thesis by simp
qed

lemma utf8_dec_enc1_4:
  assumes "\<not> c < 65536" "c < 1114112"
  shows "utf8_dec ((240 + c div 262144) # (128 + c div 4096 mod 64) # (128 + c div 64 mod 64)
                   # (128 + c mod 64) # r)
         = map_option (Cons c) (utf8_dec r)"
proof -
  have 1: "240 + c div 262144 < 248" using assms by simp
  have 3: "is_cont (128 + c mod 64)" "is_cont (128 + c div 64 mod 64)"
    "is_cont (128 + c div 4096 mod 64)" by (simp_all add: is_cont_def)
  show ?thesis using assms 1
    by (simp add: split_262144 3 Let_def)
qed

lemma utf8_dec_enc1:
  assumes "utf8_enc1 c = Some bs"
  shows "utf8_dec (map unat bs @ r) = map_option (Cons c) (utf8_dec r)"
proof -
  have m: "c mod 64 < 64" "c div 64 mod 64 < 64" "c div 4096 mod 64 < 64" by simp_all
  consider "c < 128" | "\<not> c < 128" "c < 2048"
    | "\<not> c < 2048" "c < 65536" "\<not> (55296 \<le> c \<and> c \<le> 57343)"
    | "\<not> c < 65536" "c < 1114112"
    using assms by (auto simp: utf8_enc1_def split: if_splits)
  then show ?thesis
  proof cases
    case 1
    with assms have bs: "bs = [of_nat c]" by (simp add: utf8_enc1_def)
    have b: "c < 256" using 1 by simp
    have "map unat bs = [c]"
      unfolding bs by (simp only: list.map unat_byte_of_nat[OF b])
    then show ?thesis by (simp only: append_Cons append_Nil utf8_dec_enc1_1[OF 1])
  next
    case 2
    with assms have bs: "bs = [of_nat (192 + c div 64), of_nat (128 + c mod 64)]"
      by (simp add: utf8_enc1_def)
    have b: "192 + c div 64 < 256" "128 + c mod 64 < 256" using 2 m by simp_all
    have "map unat bs = [192 + c div 64, 128 + c mod 64]"
      unfolding bs by (simp only: list.map unat_byte_of_nat[OF b(1)] unat_byte_of_nat[OF b(2)])
    then show ?thesis by (simp only: append_Cons append_Nil utf8_dec_enc1_2[OF 2])
  next
    case 3
    with assms have bs: "bs = [of_nat (224 + c div 4096), of_nat (128 + c div 64 mod 64),
                           of_nat (128 + c mod 64)]"
      by (auto simp: utf8_enc1_def)
    have b: "224 + c div 4096 < 256" "128 + c div 64 mod 64 < 256" "128 + c mod 64 < 256"
      using 3 m by simp_all
    have "map unat bs = [224 + c div 4096, 128 + c div 64 mod 64, 128 + c mod 64]"
      unfolding bs
      by (simp only: list.map unat_byte_of_nat[OF b(1)] unat_byte_of_nat[OF b(2)]
                     unat_byte_of_nat[OF b(3)])
    then show ?thesis by (simp only: append_Cons append_Nil utf8_dec_enc1_3[OF 3])
  next
    case 4
    with assms have bs: "bs = [of_nat (240 + c div 262144), of_nat (128 + c div 4096 mod 64),
                           of_nat (128 + c div 64 mod 64), of_nat (128 + c mod 64)]"
      by (auto simp: utf8_enc1_def)
    have b: "240 + c div 262144 < 256" "128 + c div 4096 mod 64 < 256"
      "128 + c div 64 mod 64 < 256" "128 + c mod 64 < 256"
      using 4 m by simp_all
    have "map unat bs = [240 + c div 262144, 128 + c div 4096 mod 64,
                         128 + c div 64 mod 64, 128 + c mod 64]"
      unfolding bs
      by (simp only: list.map unat_byte_of_nat[OF b(1)] unat_byte_of_nat[OF b(2)]
                     unat_byte_of_nat[OF b(3)] unat_byte_of_nat[OF b(4)])
    then show ?thesis by (simp only: append_Cons append_Nil utf8_dec_enc1_4[OF 4])
  qed
qed

lemma utf8_dec_encode:
  "utf8_encode s = Some bs \<Longrightarrow> utf8_dec (map unat bs) = Some s"
proof (induction s arbitrary: bs)
  case Nil
  then show ?case by simp
next
  case (Cons c s)
  from Cons.prems obtain b1 rest where
    1: "utf8_enc1 c = Some b1" and 2: "utf8_encode s = Some rest" and 3: "bs = b1 @ rest"
    by (auto split: option.splits)
  from utf8_dec_enc1[OF 1, of "map unat rest"] Cons.IH[OF 2] 3 show ?case by simp
qed

lemma utf8_decode_encode: "utf8_encode s = Some bs \<Longrightarrow> utf8_decode bs = Some s"
  by (simp add: utf8_decode_def utf8_dec_encode)

subsection \<open>The characters of a quoted title and of a base64 text\<close>

lemma hex_digit_range: "d < 16 \<Longrightarrow> 48 \<le> hex_digit d \<and> hex_digit d \<le> 70 \<and> hex_digit d \<noteq> 58"
  by (auto simp: hex_digit_def)

lemma quote_byte_chars:
  assumes "b < 256" and "c \<in> set (quote_byte b)"
  shows "c \<noteq> 10 \<and> c \<noteq> 35 \<and> c \<noteq> 47 \<and> c \<noteq> 58"
proof (cases "always_safe b")
  case True
  with assms(2) have "c = b" by (simp add: quote_byte_def)
  with True show ?thesis by (auto simp: always_safe_def)
next
  case False
  have "b div 16 < 16" "b mod 16 < 16" using assms(1) by simp_all
  from hex_digit_range[OF this(1)] hex_digit_range[OF this(2)] False assms(2)
  show ?thesis by (auto simp: quote_byte_def)
qed

lemma quote_chars:
  assumes "quote s = Inr t" and "c \<in> set t"
  shows "c \<noteq> 10 \<and> c \<noteq> 35 \<and> c \<noteq> 47 \<and> c \<noteq> 58"
proof (cases "utf8_encode s")
  case None
  with assms(1) show ?thesis by (simp add: quote_def)
next
  case (Some bs)
  with assms(1) have "t = concat (map (\<lambda>b. quote_byte (unat b)) bs)"
    by (simp add: quote_def)
  with assms(2) obtain b :: byte where "c \<in> set (quote_byte (unat b))" by auto
  moreover have "unat b < 256" using unsigned_less[of b] by simp
  ultimately show ?thesis using quote_byte_chars by blast
qed

lemma b64_char_not_newline: "b64_char i \<noteq> 10"
  by (auto simp: b64_char_def)

lemma b64enc_not_newline: "c \<in> set (b64enc xs) \<Longrightarrow> c \<noteq> 10"
  by (induction xs rule: b64enc.induct) (auto simp: b64_char_not_newline)

lemma b64encode_not_newline: "\<forall>c \<in> set (b64encode bs). c \<noteq> 10"
  by (auto simp: b64encode_def dest: b64enc_not_newline)

subsection \<open>The two patterns on a composed hashlink\<close>

lemma star_greedy_None:
  assumes "\<forall>n \<le> length xs. k (drop n xs @ ys) = None" and "ys = [] \<or> \<not> P (hd ys)"
  shows "star_greedy P k (xs @ ys) = None"
  using assms
proof (induction xs)
  case Nil
  then show ?case by (cases ys) auto
next
  case (Cons x xs)
  have "\<forall>n \<le> length xs. k (drop n xs @ ys) = None"
  proof (intro allI impI)
    fix n assume "n \<le> length xs"
    with Cons.prems(1)[THEN spec, of "Suc n"] show "k (drop n xs @ ys) = None" by simp
  qed
  from Cons.IH[OF this Cons.prems(2)] Cons.prems(1)[THEN spec, of 0]
  show ?case by simp
qed

lemma strip_prefix_colon:
  assumes "58 \<notin> set u" and "47 \<notin> set p"
  shows "strip_prefix (p @ 58 # m) (u @ 47 # r) = None"
  using assms
proof (induction p arbitrary: u)
  case Nil
  then show ?case by (cases u) auto
next
  case (Cons x p)
  then show ?case by (cases u) auto
qed

lemma marker_not_in_title:
  assumes "58 \<notin> set u"
  shows "strip_prefix (ustr ''data:text/html;charset=utf-8;base64,'') (u @ 47 # r) = None"
proof -
  have "ustr ''data:text/html;charset=utf-8;base64,''
          = ustr ''data'' @ 58 # ustr ''text/html;charset=utf-8;base64,''"
    by (simp add: ustr_def)
  moreover have "47 \<notin> set (ustr ''data'')" by (simp add: ustr_def)
  ultimately show ?thesis using strip_prefix_colon[OF assms] by simp
qed

lemma reroute_tail_None:
  assumes "35 \<notin> set u" "47 \<notin> set u" "58 \<notin> set u"
  shows "rxm (Cat (Opt (Lit (ustr ''/'')))
           (Cat (Opt (Alt (Lit (ustr ''#'')) (Lit (ustr ''/''))))
             (Cat (Lit (ustr ''data:text/html;charset=utf-8;base64,'')) r))) k g
           (u @ 47 # 63 # b) = None"
proof (cases u)
  case Nil
  have "strip_prefix (ustr ''data:text/html;charset=utf-8;base64,'') (63 # b) = None"
    by (simp add: ustr_def)
  moreover have "strip_prefix (ustr ''data:text/html;charset=utf-8;base64,'') (47 # 63 # b) = None"
    by (simp add: ustr_def)
  moreover have "ustr ''/'' = [47]" "ustr ''#'' = [35]" by (simp_all add: ustr_def)
  ultimately show ?thesis using Nil by simp
next
  case (Cons c u')
  with assms have c: "c \<noteq> 35" "c \<noteq> 47" by auto
  have "strip_prefix (ustr ''data:text/html;charset=utf-8;base64,'') (u @ 47 # 63 # b) = None"
    by (rule marker_not_in_title[OF assms(3)])
  moreover have "ustr ''/'' = [47]" "ustr ''#'' = [35]" by (simp_all add: ustr_def)
  ultimately show ?thesis using Cons c by simp
qed

lemma reroute_match_composed:
  assumes "35 \<notin> set t" "47 \<notin> set t" "58 \<notin> set t"
  shows "reroute_match (ustr ''https://itty.bitty.site/#'' @ t @ ustr ''/?'' @ b) = None"
proof -
  let ?K = "\<lambda>(g::pystr list) (s'::pystr). Some (g, s')"
  let ?tail = "Cat (Opt (Lit (ustr ''/'')))
           (Cat (Opt (Alt (Lit (ustr ''#'')) (Lit (ustr ''/''))))
             (Cat (Lit (ustr ''data:text/html;charset=utf-8;base64,''))
               (Cat (Grp (Plus Dot)) (Lit []))))"
  let ?after = "t @ 47 # 63 # b"
  have s: "ustr ''https://itty.bitty.site/#'' @ t @ ustr ''/?'' @ b
             = ustr ''https://itty.bitty.site/'' @ 35 # ?after"
    by (simp add: ustr_def)
  have t: "star_greedy (cset_ok (Except 47)) (rxm ?tail ?K []) ?after = None"
  proof (rule star_greedy_None)
    show "\<forall>n \<le> length t. rxm ?tail ?K [] (drop n t @ 47 # 63 # b) = None"
    proof (intro allI impI)
      fix n
      have "set (drop n t) \<subseteq> set t" by (rule set_drop_subset)
      with assms have "35 \<notin> set (drop n t)" "47 \<notin> set (drop n t)" "58 \<notin> set (drop n t)"
        by auto
      then show "rxm ?tail ?K [] (drop n t @ 47 # 63 # b) = None"
        by (rule reroute_tail_None)
    qed
    show "47 # 63 # b = [] \<or> \<not> cset_ok (Except 47) (hd (47 # 63 # b))" by simp
  qed
  have t': "rxm (Cat (Star (Except 47)) ?tail) ?K [] ?after = None"
    unfolding rxm_star_then by (rule t)
  have h: "star_greedy (cset_ok (Except 35))
             (rxm (Cat (Lit [35]) (Cat (Star (Except 47)) ?tail)) ?K [])
             (35 # ?after) = None"
    unfolding rxm_hash_then by (rule t')
  have h': "rxm (Cat (Star (Except 35)) (Cat (Lit [35]) (Cat (Star (Except 47)) ?tail))) ?K []
             (35 # ?after) = None"
    unfolding rxm_star_then by (rule h)
  have rx: "reroute_rx =
      Cat (Lit (ustr ''https://itty.bitty.site/''))
        (Cat (Star (Except 35)) (Cat (Lit [35]) (Cat (Star (Except 47)) ?tail)))"
    by (simp add: reroute_rx_def cats_def ustr_def)
  have "re_match reroute_rx (ustr ''https://itty.bitty.site/'' @ 35 # ?after) = None"
    unfolding re_match_def rx rxm_lit_then by (rule h')
  then show ?thesis by (simp only: reroute_match_def s option.case)
qed

text \<open>The lazy title group stops at the first \<open>/?\<close>.\<close>

lemma star_lazy_skip:
  assumes "\<forall>c \<in> set xs. P c" and "\<forall>n < length xs. k (drop n xs @ ys) = None"
    and "k ys = Some r"
  shows "star_lazy P k (xs @ ys) = Some r"
  using assms
proof (induction xs)
  case Nil
  then show ?case by (cases ys) auto
next
  case (Cons x xs)
  have "\<forall>n < length xs. k (drop n xs @ ys) = None"
  proof (intro allI impI)
    fix n assume "n < length xs"
    with Cons.prems(2)[THEN spec, of "Suc n"] show "k (drop n xs @ ys) = None" by simp
  qed
  with Cons.IH Cons.prems(1,3) have "star_lazy P k (xs @ ys) = Some r" by simp
  with Cons.prems(1) Cons.prems(2)[THEN spec, of 0] show ?case by simp
qed

lemma standard_match_composed:
  assumes "47 \<notin> set t" "10 \<notin> set t" "10 \<notin> set b"
  shows "standard_match (ustr ''https://itty.bitty.site/#'' @ t @ ustr ''/?'' @ b) = Some (t, b)"
proof -
  let ?K = "\<lambda>(g::pystr list) (s'::pystr). Some (g, s')"
  let ?s = "t @ 47 # 63 # b"
  let ?rest = "Cat (Lit [47, 63]) (Cat (Grp (Star Dot)) (Lit []))"
  let ?k = "\<lambda>s'. rxm ?rest ?K ([] @ [take (length ?s - length s') ?s]) s'"
  have rx: "standard_rx =
      Cat (Lit (ustr ''https://itty.bitty.site/#'')) (Cat (Grp (LazyStar Dot)) ?rest)"
    by (simp add: standard_rx_def cats_def ustr_def)
  have s: "ustr ''/?'' @ b = 47 # 63 # b" by (simp add: ustr_def)
  have b: "dropWhile (\<lambda>c. c \<noteq> 10) b = []" using assms(3) by (induction b) auto
  have g: "star_greedy (\<lambda>x. x \<noteq> 10) (\<lambda>s'. Some (gs @ [take (length b - length s') b], s')) b
            = Some (gs @ [b], [])" for gs :: "pystr list"
    by (subst star_greedy_total) (simp_all add: b)
  have last: "?k (47 # 63 # b) = Some ([t, b], [])"
    using g[of "[t]"] by (simp add: cset_ok_fun)
  have skip: "\<forall>n < length t. ?k (drop n t @ 47 # 63 # b) = None"
  proof (intro allI impI)
    fix n assume n: "n < length t"
    then obtain c cs where d: "drop n t = c # cs" by (cases "drop n t") auto
    then have "c \<in> set t" by (metis in_set_dropD list.set_intros(1))
    with assms(1) have "c \<noteq> 47" by auto
    with d show "?k (drop n t @ 47 # 63 # b) = None" by simp
  qed
  have p: "\<forall>c \<in> set t. cset_ok Dot c" using assms(2) by auto
  have lz: "star_lazy (cset_ok Dot) ?k ?s = Some ([t, b], [])"
    by (rule star_lazy_skip[OF p skip last])
  have eq: "rxm (Cat (Grp (LazyStar Dot)) ?rest) ?K [] ?s = star_lazy (cset_ok Dot) ?k ?s"
    by (simp only: rxm.simps)
  have "re_match standard_rx (ustr ''https://itty.bitty.site/#'' @ ?s) = Some ([t, b], [])"
    unfolding re_match_def rx rxm_lit_then eq by (rule lz)
  then show ?thesis by (simp add: standard_match_def s)
qed

subsection \<open>Strategy 2 on a composed hashlink\<close>

lemma standard_phase_first_candidate:
  assumes "b64decode b64_part = Inr compressed"
    and "lzma_decompress env compressed = Inr raw"
    and "utf8_decode raw = Some html"
  shows "standard_phase env (Some (title, b64_part))
         = ([Info_standard_check, Info_padding_attempt 0, Info_padding_success],
            Return (Document html v_standard))"
  using assms by (simp add: standard_phase_def header_lengths_def)

lemma decode_hashlink_first_candidate:
  assumes "reroute_match hashlink = None"
    and "standard_match hashlink = Some (title, b64_part)"
    and "b64decode b64_part = Inr compressed"
    and "lzma_decompress env compressed = Inr raw"
    and "utf8_decode raw = Some html"
  shows "decode_hashlink env hashlink
         = ([Info_start, Info_standard_check, Info_padding_attempt 0, Info_padding_success],
            Document html v_standard)"
  using assms(1,2) standard_phase_first_candidate[OF assms(3-5), of title]
  by (simp add: decode_hashlink_def local_phases_def reroute_phase_def)

text \<open>
  C2. Let \<open>generate_hashlink\<close> return a hashlink for three inputs, let \<open>html\<close> be the
  document it rendered and \<open>raw\<close> its UTF-8 encoding, and let the LZMA library decompress
  what it compressed: \<open>lzma.decompress\<close> of \<open>lzma.compress(raw)\<close> is \<open>raw\<close>. Then
  \<open>decode_hashlink\<close> on that hashlink returns the document \<open>html\<close> unchanged under the
  label of strategy 2, and its log is the start, the entry of strategy 2, the padding
  attempt with 0 pad characters and the success: the first candidate, padding 0 and skip 0,
  succeeds, and neither the reroute branch nor strategy 3 nor the fetch is entered.
\<close>

theorem C2_round_trip:
  assumes "generate_hashlink lzma_compress title_input body_input link_input btc_snapshot
             = Inr hashlink"
    and "html_content title_input body_input link_input btc_snapshot = Inr (html, title2)"
    and "utf8_encode html = Some raw"
    and "lzma_decompress env (lzma_compress raw) = Inr raw"
  shows "decode_hashlink env hashlink
         = ([Info_start, Info_standard_check, Info_padding_attempt 0, Info_padding_success],
            Document html ''IBS v1 / PvtPpr v1'')"
proof -
  let ?t = "if input_value title2 \<noteq> [] then input_value title2 else placeholder title2"
  from assms(1-3) obtain title_encoded where
    q: "quote ?t = Inr title_encoded" and
    h: "hashlink = ustr ''https://itty.bitty.site/#'' @ title_encoded @ ustr ''/?''
                     @ b64encode (lzma_compress raw)"
    by (cases "quote ?t") (simp_all add: generate_hashlink_def)
  have c: "35 \<notin> set title_encoded" "47 \<notin> set title_encoded" "58 \<notin> set title_encoded"
    "10 \<notin> set title_encoded"
    using quote_chars[OF q] by blast+
  have n: "10 \<notin> set (b64encode (lzma_compress raw))"
    using b64encode_not_newline by blast
  have r: "reroute_match hashlink = None"
    unfolding h by (rule reroute_match_composed[OF c(1-3)])
  have s: "standard_match hashlink = Some (title_encoded, b64encode (lzma_compress raw))"
    unfolding h by (rule standard_match_composed[OF c(2) c(4) n])
  from decode_hashlink_first_candidate[OF r s b64decode_b64encode assms(4)
         utf8_decode_encode[OF assms(3)]]
  show ?thesis by (simp only: v_standard_def)
qed

subsection \<open>A composed document\<close>

lemma sanitize_title_doc: "sanitize (TitleTextInput (ustr ''A b'')) = TitleTextInput (ustr ''A b'')"
  by (simp add: sanitize_def TitleTextInput_def ustr_def)

lemma sanitize_body_doc:
  "sanitize (BodyTextField (ustr ''<p>hi</p>'')) = BodyTextField (ustr ''<p>hi</p>'')"
  by (simp add: sanitize_def BodyTextField_def ustr_def)

lemma sanitize_link_doc: "sanitize (LinkInput []) = LinkInput []"
  by (simp add: sanitize_def LinkInput_def ustr_def)

lemma validate_doc:
  "validate (TitleTextInput (ustr ''A b'')) = Inr (TitleTextInput (ustr ''A b''))"
  "validate (BodyTextField (ustr ''<p>hi</p>'')) = Inr (BodyTextField (ustr ''<p>hi</p>''))"
  "validate (LinkInput []) = Inr (LinkInput [])"
  by (simp_all add: validate_def sanitize_title_doc sanitize_body_doc sanitize_link_doc)
     (simp_all add: TitleTextInput_def BodyTextField_def LinkInput_def)

lemma title_render_doc:
  "title_render (TitleTextInput (ustr ''A b''))
     = (ustr ''<h1>A b</h1>'', TitleTextInput (ustr ''A b''))"
  by (simp add: title_render_def sanitize_title_doc)
     (simp add: TitleTextInput_def ustr_def)

lemma tags_removed_doc: "re_sub_empty tag_rx (ustr ''<p>hi</p>'') = ustr ''hi''"
  by (simp add: tag_rx_def cats_def re_match_def ustr_def)

lemma count_stats_doc:
  "count_stats (BodyTextField (ustr ''<p>hi</p>''))
     = ((2, 1, 0), BodyTextField (ustr ''<p>hi</p>''))"
proof -
  have "input_value (BodyTextField (ustr ''<p>hi</p>'')) = ustr ''<p>hi</p>''"
    by (simp add: BodyTextField_def)
  moreover have "length (ustr ''hi'') = 2" by (simp add: ustr_def)
  moreover have "length (py_split_ws (ustr ''hi'')) = 1"
    by (simp add: py_split_ws_def ustr_def is_space_def)
  moreover have "round_div 2 200 = 0" by (simp add: round_div_def)
  ultimately show ?thesis
    by (simp add: count_stats_def sanitize_body_doc tags_removed_doc Let_def)
qed

lemma str_nat_digit: "n < 10 \<Longrightarrow> str_nat n = [48 + n]"
  by simp

lemma body_render_doc:
  "body_render (BodyTextField (ustr ''<p>hi</p>''))
     = ([10] @ ustr ''        <div><p>hi</p></div>'' @ [10]
        @ ustr ''        <div>Chars: 2 | Words: 1 | Reading Time: 0 min</div>'' @ [10]
        @ ustr ''        '',
        BodyTextField (ustr ''<p>hi</p>''))"
proof -
  have "input_value (BodyTextField (ustr ''<p>hi</p>'')) = ustr ''<p>hi</p>''"
    by (simp add: BodyTextField_def)
  moreover have "str_nat 2 = ustr ''2''" "str_nat 1 = ustr ''1''" "str_nat 0 = ustr ''0''"
    by (simp_all add: ustr_def)
  ultimately show ?thesis
    by (simp add: body_render_def count_stats_doc sanitize_body_doc Let_def del: str_nat.simps)
       (simp add: ustr_def)
qed

lemma link_render_doc: "link_render (LinkInput []) = Inr ([], LinkInput [])"
  by (simp add: link_render_def validate_doc) (simp add: LinkInput_def)

lemma html_content_doc:
  "html_content (TitleTextInput (ustr ''A b'')) (BodyTextField (ustr ''<p>hi</p>''))
     (LinkInput []) []
   = Inr (doc_html, TitleTextInput (ustr ''A b''))"
proof -
  have "input_value (TitleTextInput (ustr ''A b'')) = ustr ''A b''"
    by (simp add: TitleTextInput_def)
  then show ?thesis
    by (simp add: html_content_def validate_doc title_render_doc body_render_doc
                  link_render_doc pvtppr_template_def doc_html_def)
       (simp add: ustr_def)
qed

lemma utf8_encode_ascii:
  "\<forall>c \<in> set s. c < 128 \<Longrightarrow> utf8_encode s = Some (map of_nat s)"
  by (induction s) (simp_all add: utf8_enc1_def)

lemma doc_html_ascii: "\<forall>c \<in> set doc_html. c < 128"
  by (simp add: doc_html_def ustr_def)

lemma utf8_encode_doc: "utf8_encode doc_html = Some doc_raw"
  unfolding doc_raw_def by (rule utf8_encode_ascii[OF doc_html_ascii])

lemma quote_doc: "quote (ustr ''A b'') = Inr (ustr ''A%20b'')"
proof -
  have "utf8_encode (ustr ''A b'') = Some [65, 32, 98]"
    by (simp add: utf8_enc1_def ustr_def)
  then show ?thesis
    by (simp add: quote_def quote_byte_def always_safe_def hex_digit_def ustr_def)
qed

lemma b64encode_doc:
  "b64encode doc_lzma =
     ustr ''XQAAAAT//////////wAFD/yEnnWlo4h/tppTaggd''
     @ ustr ''lssF0bwi/1LYvyTf+Qm9ne/fL7uPvHKLQPndWAjN4ZXCXVVD/xjCMV1iVJPLTMvrKnuF/K0b''
     @ ustr ''UFzoOexGOct3sXlbCZ7Xxyw7zXmqGD48bHBQoEx81YeLQim7OCg3Rlphu9H9vUkGzEt9H2Ep''
     @ ustr ''KDH50YvzI7n/R7vcOxjiq0J5gZ+YOMHoz9vp0eEiiw5ztIlQJEUjNKJkcZ7jFgYlIKHMGLL5''
     @ ustr ''njAJ''"
  by (simp add: b64encode_def doc_lzma_def b64_char_def ustr_def)

lemma generate_hashlink_doc:
  "generate_hashlink lzma_compress_doc (TitleTextInput (ustr ''A b''))
     (BodyTextField (ustr ''<p>hi</p>'')) (LinkInput []) []
   = Inr doc_hashlink"
proof -
  have "input_value (TitleTextInput (ustr ''A b'')) = ustr ''A b''"
    by (simp add: TitleTextInput_def)
  moreover have "ustr ''A b'' \<noteq> []" by (simp add: ustr_def)
  moreover have "ustr ''https://itty.bitty.site/#'' @ ustr ''A%20b'' @ ustr ''/?''
                   @ b64encode doc_lzma = doc_hashlink"
    unfolding b64encode_doc doc_hashlink_def by (simp add: ustr_def)
  ultimately show ?thesis
    by (simp add: generate_hashlink_def html_content_doc utf8_encode_doc quote_doc
                  lzma_compress_doc_def)
qed

lemma lzma_doc_contract:
  "lzma_decompress env_lzma_doc (lzma_compress_doc doc_raw) = Inr doc_raw"
  by (simp add: env_lzma_doc_def lzma_compress_doc_def)

theorem C2_round_trip_witness:
  "generate_hashlink lzma_compress_doc (TitleTextInput (ustr ''A b''))
     (BodyTextField (ustr ''<p>hi</p>'')) (LinkInput []) []
   = Inr doc_hashlink
   \<and> html_content (TitleTextInput (ustr ''A b'')) (BodyTextField (ustr ''<p>hi</p>''))
       (LinkInput []) []
     = Inr (doc_html, TitleTextInput (ustr ''A b''))
   \<and> utf8_encode doc_html = Some doc_raw
   \<and> lzma_decompress env_lzma_doc (lzma_compress_doc doc_raw) = Inr doc_raw
   \<and> decode_hashlink env_lzma_doc doc_hashlink
     = ([Info_start, Info_standard_check, Info_padding_attempt 0, Info_padding_success],
        Document doc_html ''IBS v1 / PvtPpr v1'')"
  by (intro conjI)
     (rule generate_hashlink_doc html_content_doc utf8_encode_doc lzma_doc_contract
           C2_round_trip[OF generate_hashlink_doc html_content_doc utf8_encode_doc
                            lzma_doc_contract])+

end
